theory Spec2Isabelle
  imports Complex_Main
begin

section \<open>Data model (internal/models)\<close>

text \<open>
  \<open>decimal.Decimal\<close> (shopspring) is an arbitrary-precision decimal; \<open>Add\<close>, \<open>Sub\<close>,
  \<open>Mul\<close>, \<open>Min\<close> and the comparisons are exact, so a decimal is modelled by the rational
  number it denotes. \<open>uuid.UUID\<close> is a number with \<open>uuid.Nil = 0\<close>; a \<open>time.Time\<close> is an
  integer with the zero time \<open>0\<close>. \<open>OrderSide\<close> and \<open>OrderStatus\<close> are string types in the
  source and stay strings here.
\<close>

type_synonym decimal = rat
type_synonym uuid = nat
type_synonym time = int
type_synonym OrderSide = string
type_synonym OrderStatus = string

definition OrderSideBack :: OrderSide where "OrderSideBack = ''BACK''"
definition OrderSideLay :: OrderSide where "OrderSideLay = ''LAY''"

definition OrderStatusPending :: OrderStatus where "OrderStatusPending = ''PENDING''"
definition OrderStatusMatched :: OrderStatus where "OrderStatusMatched = ''MATCHED''"
definition OrderStatusPartially :: OrderStatus where "OrderStatusPartially = ''PARTIALLY''"
definition OrderStatusCancelled :: OrderStatus where "OrderStatusCancelled = ''CANCELLED''"
definition OrderStatusExpired :: OrderStatus where "OrderStatusExpired = ''EXPIRED''"

record Order =
  ID :: uuid
  UserID :: uuid
  MarketID :: string
  SelectionID :: string
  Side :: OrderSide
  Price :: decimal
  Size :: decimal
  SizeMatched :: decimal
  SizeRemaining :: decimal
  Status :: OrderStatus
  ReservationID :: string
  SagaID :: string
  IdempotencyKey :: string
  PlacedAt :: time
  MatchedAt :: "time option"
  CancelledAt :: "time option"
  Version :: int

text \<open>
  A \<open>models.Match\<close>. Its \<open>ID\<close> is \<open>uuid.New()\<close>, a random value that nothing reads; the
  field is left out. The other fields carry the prefix \<open>Match\<close> where the name is also a
  field of \<open>Order\<close>.
\<close>

record Match =
  MatchMarketID :: string
  MatchSelectionID :: string
  BackOrderID :: uuid
  LayOrderID :: uuid
  BackUserID :: uuid
  LayUserID :: uuid
  MatchPrice :: decimal
  MatchSize :: decimal
  BackLiability :: decimal
  LayLiability :: decimal
  MatchMatchedAt :: time
  SettledAt :: "time option"

datatype error =
    ErrOrderNotFound
  | ErrOptimisticLock
  | ErrIdempotencyMismatch
  | ErrInvalidOrderStatus
  | ErrValidation
  | ErrDriver
  | ErrUniqueViolation
  | ErrJSON
  | Errorf string
  | Wrap string error
  | Panic string

section \<open>The matching engine (pkg/matchingengine/engine.go)\<close>

text \<open>
  The engine holds \<open>*models.Order\<close> pointers: the caller's order and the order in a queue
  are one object, and \<open>placeBackOrder\<close> writes to the order after \<open>addBackOrder\<close> has
  queued it. Orders therefore live in a store from addresses to orders, and queues hold
  addresses. The two Go maps are keyed by \<open>price.String()\<close>, the canonical rendering of the
  decimal's value (trailing zeros trimmed), so the key is modelled by the value itself.
  \<open>time.Now()\<close> is the parameter \<open>now\<close> of an operation.
\<close>

type_synonym ptr = nat
type_synonym heap = "ptr \<Rightarrow> Order"

record OrderQueue =
  price :: decimal
  orders :: "ptr list"

record Engine =
  marketID :: string
  selectionID :: string
  backOrders :: "decimal \<rightharpoonup> OrderQueue"
  layOrders :: "decimal \<rightharpoonup> OrderQueue"
  backPrices :: "decimal list"
  layPrices :: "decimal list"

definition NewEngine :: "string \<Rightarrow> string \<Rightarrow> Engine" where
  "NewEngine mid sid =
     \<lparr>marketID = mid, selectionID = sid, backOrders = Map.empty, layOrders = Map.empty,
      backPrices = [], layPrices = []\<rparr>"

text \<open>The match literal of \<open>matchOrders\<close> and its branch on the incoming side
  (engine.go 140-164).\<close>

definition buildMatch :: "Engine \<Rightarrow> time \<Rightarrow> Order \<Rightarrow> Order \<Rightarrow> decimal \<Rightarrow> decimal \<Rightarrow> Match" where
  "buildMatch e now incoming existing matchPrice matchSize =
     (if Side incoming = OrderSideBack then
        \<lparr>MatchMarketID = marketID e, MatchSelectionID = selectionID e,
         BackOrderID = ID incoming, LayOrderID = ID existing,
         BackUserID = UserID incoming, LayUserID = UserID existing,
         MatchPrice = matchPrice, MatchSize = matchSize,
         BackLiability = matchSize, LayLiability = matchSize * (matchPrice - 1),
         MatchMatchedAt = now, SettledAt = None\<rparr>
      else
        \<lparr>MatchMarketID = marketID e, MatchSelectionID = selectionID e,
         BackOrderID = ID existing, LayOrderID = ID incoming,
         BackUserID = UserID existing, LayUserID = UserID incoming,
         MatchPrice = matchPrice, MatchSize = matchSize,
         BackLiability = matchSize, LayLiability = matchSize * (matchPrice - 1),
         MatchMatchedAt = now, SettledAt = None\<rparr>)"

text \<open>\<open>p.SizeMatched = p.SizeMatched.Add(matchSize); p.SizeRemaining =
  p.SizeRemaining.Sub(matchSize)\<close> (engine.go 169-173).\<close>

definition addMatched :: "heap \<Rightarrow> ptr \<Rightarrow> decimal \<Rightarrow> heap" where
  "addMatched h p matchSize =
     h(p := (h p)\<lparr>SizeMatched := SizeMatched (h p) + matchSize,
                  SizeRemaining := SizeRemaining (h p) - matchSize\<rparr>)"

text \<open>The loop of \<open>matchOrders\<close>: \<open>i\<close> is the index, \<open>os\<close> is \<open>queue.orders\<close>,
  \<open>matches\<close> the slice built so far.\<close>

function matchOrders_loop ::
  "Engine \<Rightarrow> time \<Rightarrow> ptr \<Rightarrow> decimal \<Rightarrow> nat \<Rightarrow> heap \<Rightarrow> ptr list \<Rightarrow> Match list
     \<Rightarrow> Match list \<times> heap \<times> ptr list" where
  "matchOrders_loop e now incoming matchPrice i h os matches =
     (if i < length os \<and> SizeRemaining (h incoming) \<noteq> 0 then
        let existing = os ! i;
            matchSize = min (SizeRemaining (h incoming)) (SizeRemaining (h existing));
            match = buildMatch e now (h incoming) (h existing) matchPrice matchSize;
            h1 = addMatched h incoming matchSize;
            h2 = addMatched h1 existing matchSize
        in if SizeRemaining (h2 existing) = 0 then
             matchOrders_loop e now incoming matchPrice i
               (h2(existing := (h2 existing)\<lparr>MatchedAt := Some now, Status := OrderStatusMatched\<rparr>))
               (take i os @ drop (Suc i) os) (matches @ [match])
           else
             matchOrders_loop e now incoming matchPrice (Suc i)
               (h2(existing := (h2 existing)\<lparr>Status := OrderStatusPartially\<rparr>))
               os (matches @ [match])
      else (matches, h, os))"
  by pat_completeness auto
termination
  by (relation "measure (\<lambda>(e, now, incoming, matchPrice, i, h, os, matches). length os - i)")
     auto

declare matchOrders_loop.simps [simp del]

definition matchOrders ::
  "Engine \<Rightarrow> time \<Rightarrow> heap \<Rightarrow> ptr \<Rightarrow> OrderQueue \<Rightarrow> decimal \<Rightarrow> Match list \<times> heap \<times> OrderQueue" where
  "matchOrders e now h incoming queue matchPrice =
     (case matchOrders_loop e now incoming matchPrice 0 h (orders queue) [] of
        (matches, h', os') \<Rightarrow> (matches, h', queue\<lparr>orders := os'\<rparr>))"

fun insertPriceDescending_index :: "decimal list \<Rightarrow> decimal \<Rightarrow> nat" where
  "insertPriceDescending_index [] newPrice = 0"
| "insertPriceDescending_index (p # ps) newPrice =
     (if p > newPrice then Suc (insertPriceDescending_index ps newPrice) else 0)"

definition insertPriceDescending :: "decimal list \<Rightarrow> decimal \<Rightarrow> decimal list" where
  "insertPriceDescending prices newPrice =
     (let i = insertPriceDescending_index prices newPrice
      in take i prices @ [newPrice] @ drop i prices)"

fun insertPriceAscending_index :: "decimal list \<Rightarrow> decimal \<Rightarrow> nat" where
  "insertPriceAscending_index [] newPrice = 0"
| "insertPriceAscending_index (p # ps) newPrice =
     (if p < newPrice then Suc (insertPriceAscending_index ps newPrice) else 0)"

definition insertPriceAscending :: "decimal list \<Rightarrow> decimal \<Rightarrow> decimal list" where
  "insertPriceAscending prices newPrice =
     (let i = insertPriceAscending_index prices newPrice
      in take i prices @ [newPrice] @ drop i prices)"

definition addBackOrder :: "Engine \<Rightarrow> heap \<Rightarrow> ptr \<Rightarrow> Engine \<times> heap" where
  "addBackOrder e h order =
     (let priceKey = Price (h order);
          (queue, e1) =
            (case backOrders e priceKey of
               Some q \<Rightarrow> (q, e)
             | None \<Rightarrow>
                 (\<lparr>price = Price (h order), orders = []\<rparr>,
                  e\<lparr>backOrders := (backOrders e)(priceKey \<mapsto> \<lparr>price = Price (h order), orders = []\<rparr>),
                    backPrices := insertPriceDescending (backPrices e) (Price (h order))\<rparr>))
      in (e1\<lparr>backOrders := (backOrders e1)(priceKey \<mapsto> queue\<lparr>orders := orders queue @ [order]\<rparr>)\<rparr>,
          h(order := (h order)\<lparr>Status := OrderStatusPending\<rparr>)))"

definition addLayOrder :: "Engine \<Rightarrow> heap \<Rightarrow> ptr \<Rightarrow> Engine \<times> heap" where
  "addLayOrder e h order =
     (let priceKey = Price (h order);
          (queue, e1) =
            (case layOrders e priceKey of
               Some q \<Rightarrow> (q, e)
             | None \<Rightarrow>
                 (\<lparr>price = Price (h order), orders = []\<rparr>,
                  e\<lparr>layOrders := (layOrders e)(priceKey \<mapsto> \<lparr>price = Price (h order), orders = []\<rparr>),
                    layPrices := insertPriceAscending (layPrices e) (Price (h order))\<rparr>))
      in (e1\<lparr>layOrders := (layOrders e1)(priceKey \<mapsto> queue\<lparr>orders := orders queue @ [order]\<rparr>)\<rparr>,
          h(order := (h order)\<lparr>Status := OrderStatusPending\<rparr>)))"

text \<open>
  The walk of \<open>placeBackOrder\<close> over \<open>e.layPrices\<close> (the slice is read once, when the
  \<open>range\<close> starts). A price with no queue in the map gives a nil \<open>*OrderQueue\<close>, and
  \<open>matchOrders\<close> dereferences it: the walk panics, which is the value \<open>None\<close>.
\<close>

fun placeBackOrder_walk ::
  "time \<Rightarrow> ptr \<Rightarrow> decimal list \<Rightarrow> Engine \<Rightarrow> heap \<Rightarrow> Match list
     \<Rightarrow> (Match list \<times> Engine \<times> heap) option" where
  "placeBackOrder_walk now order [] e h matches = Some (matches, e, h)"
| "placeBackOrder_walk now order (layPrice # rest) e h matches =
     (if SizeRemaining (h order) = 0 then Some (matches, e, h)
      else if Price (h order) < layPrice then Some (matches, e, h)
      else
        (case layOrders e layPrice of
           None \<Rightarrow> None
         | Some queue \<Rightarrow>
             (case matchOrders e now h order queue layPrice of
                (newMatches, h', queue') \<Rightarrow>
                  placeBackOrder_walk now order rest
                    (e\<lparr>layOrders := (layOrders e)(layPrice \<mapsto> queue')\<rparr>) h'
                    (matches @ newMatches))))"

definition placeBackOrder ::
  "time \<Rightarrow> Engine \<Rightarrow> heap \<Rightarrow> ptr \<Rightarrow> (Match list \<times> Engine \<times> heap) option" where
  "placeBackOrder now e h order =
     (case placeBackOrder_walk now order (layPrices e) e h [] of
        None \<Rightarrow> None
      | Some (matches, e1, h1) \<Rightarrow>
          if SizeRemaining (h1 order) \<noteq> 0 then
            (case addBackOrder e1 h1 order of
               (e2, h2) \<Rightarrow>
                 Some (matches, e2, h2(order := (h2 order)\<lparr>Status := OrderStatusPartially\<rparr>)))
          else
            Some (matches, e1,
                  h1(order := (h1 order)\<lparr>MatchedAt := Some now, Status := OrderStatusMatched\<rparr>)))"

fun placeLayOrder_walk ::
  "time \<Rightarrow> ptr \<Rightarrow> decimal list \<Rightarrow> Engine \<Rightarrow> heap \<Rightarrow> Match list
     \<Rightarrow> (Match list \<times> Engine \<times> heap) option" where
  "placeLayOrder_walk now order [] e h matches = Some (matches, e, h)"
| "placeLayOrder_walk now order (backPrice # rest) e h matches =
     (if SizeRemaining (h order) = 0 then Some (matches, e, h)
      else if Price (h order) > backPrice then Some (matches, e, h)
      else
        (case backOrders e backPrice of
           None \<Rightarrow> None
         | Some queue \<Rightarrow>
             (case matchOrders e now h order queue backPrice of
                (newMatches, h', queue') \<Rightarrow>
                  placeLayOrder_walk now order rest
                    (e\<lparr>backOrders := (backOrders e)(backPrice \<mapsto> queue')\<rparr>) h'
                    (matches @ newMatches))))"

definition placeLayOrder ::
  "time \<Rightarrow> Engine \<Rightarrow> heap \<Rightarrow> ptr \<Rightarrow> (Match list \<times> Engine \<times> heap) option" where
  "placeLayOrder now e h order =
     (case placeLayOrder_walk now order (backPrices e) e h [] of
        None \<Rightarrow> None
      | Some (matches, e1, h1) \<Rightarrow>
          if SizeRemaining (h1 order) \<noteq> 0 then
            (case addLayOrder e1 h1 order of
               (e2, h2) \<Rightarrow>
                 Some (matches, e2, h2(order := (h2 order)\<lparr>Status := OrderStatusPartially\<rparr>)))
          else
            Some (matches, e1,
                  h1(order := (h1 order)\<lparr>MatchedAt := Some now, Status := OrderStatusMatched\<rparr>)))"

text \<open>\<open>Engine.PlaceOrder\<close>: the result is the matches, the engine and the store after the
  call; \<open>None\<close> is a panic. The returned Go error is always nil.\<close>

definition Engine_PlaceOrder ::
  "time \<Rightarrow> Engine \<Rightarrow> heap \<Rightarrow> ptr \<Rightarrow> (Match list \<times> Engine \<times> heap) option" where
  "Engine_PlaceOrder now e h order =
     (if Side (h order) = OrderSideBack then placeBackOrder now e h order
      else placeLayOrder now e h order)"

text \<open>
  \<open>Engine.CancelOrder\<close> ranges over a Go map, whose iteration order is unspecified: the
  order in which the keys are visited is the parameter \<open>ks\<close> (a key absent from the map
  is not visited). \<open>findOrder\<close> is the inner loop: the first index whose order has the
  identifier.
\<close>

fun findOrder :: "heap \<Rightarrow> uuid \<Rightarrow> ptr list \<Rightarrow> nat option" where
  "findOrder h orderID [] = None"
| "findOrder h orderID (p # ps) =
     (if ID (h p) = orderID then Some 0
      else map_option Suc (findOrder h orderID ps))"

fun cancelScan ::
  "heap \<Rightarrow> uuid \<Rightarrow> (decimal \<rightharpoonup> OrderQueue) \<Rightarrow> decimal list \<Rightarrow> (decimal \<times> OrderQueue \<times> nat) option" where
  "cancelScan h orderID m [] = None"
| "cancelScan h orderID m (k # ks) =
     (case m k of
        None \<Rightarrow> cancelScan h orderID m ks
      | Some queue \<Rightarrow>
          (case findOrder h orderID (orders queue) of
             Some i \<Rightarrow> Some (k, queue, i)
           | None \<Rightarrow> cancelScan h orderID m ks))"

definition cancelAt :: "time \<Rightarrow> heap \<Rightarrow> ptr \<Rightarrow> heap" where
  "cancelAt now h p = h(p := (h p)\<lparr>CancelledAt := Some now, Status := OrderStatusCancelled\<rparr>)"

definition Engine_CancelOrder ::
  "decimal list \<Rightarrow> decimal list \<Rightarrow> time \<Rightarrow> Engine \<Rightarrow> heap \<Rightarrow> uuid \<Rightarrow> error + (Engine \<times> heap)" where
  "Engine_CancelOrder bks lks now e h orderID =
     (case cancelScan h orderID (backOrders e) bks of
        Some (k, queue, i) \<Rightarrow>
          Inr (e\<lparr>backOrders := (backOrders e)
                   (k \<mapsto> queue\<lparr>orders := take i (orders queue) @ drop (Suc i) (orders queue)\<rparr>)\<rparr>,
               cancelAt now h (orders queue ! i))
      | None \<Rightarrow>
          (case cancelScan h orderID (layOrders e) lks of
             Some (k, queue, i) \<Rightarrow>
               Inr (e\<lparr>layOrders := (layOrders e)
                        (k \<mapsto> queue\<lparr>orders := take i (orders queue) @ drop (Suc i) (orders queue)\<rparr>)\<rparr>,
                    cancelAt now h (orders queue ! i))
           | None \<Rightarrow> Inl (Errorf ''order not found'')))"

text \<open>Every price of the two price sequences has a queue in the map of its side.\<close>

definition levels_present :: "Engine \<Rightarrow> bool" where
  "levels_present e \<longleftrightarrow>
     list_all (\<lambda>p. backOrders e p \<noteq> None) (backPrices e) \<and>
     list_all (\<lambda>p. layOrders e p \<noteq> None) (layPrices e)"

text \<open>
  The resting orders an incoming order can reach, in the order of the walk (Place
  semantics): the levels of the opposite side, best price first, up to the first level
  whose price is not eligible, and each level in queue order. Each entry is the price of
  the level and the address of the order.
\<close>

definition levelOrders :: "(decimal \<rightharpoonup> OrderQueue) \<Rightarrow> decimal list \<Rightarrow> (decimal \<times> ptr) list" where
  "levelOrders m ps =
     concat (map (\<lambda>p. case m p of None \<Rightarrow> [] | Some q \<Rightarrow> map (Pair p) (orders q)) ps)"

definition restingFor :: "Engine \<Rightarrow> heap \<Rightarrow> ptr \<Rightarrow> (decimal \<times> ptr) list" where
  "restingFor e h order =
     (if Side (h order) = OrderSideBack
      then levelOrders (layOrders e) (takeWhile (\<lambda>lp. \<not> Price (h order) < lp) (layPrices e))
      else levelOrders (backOrders e) (takeWhile (\<lambda>bp. \<not> Price (h order) > bp) (backPrices e)))"

section \<open>Durable stores (internal/repository)\<close>

text \<open>
  The database is three tables. A repository method that takes a \<open>pgx.Tx\<close> works on the
  transaction's copy of the tables; \<open>Check\<close> reads the committed tables through the pool.
  The driver's failure of a call (connection lost, constraint violated) is decided by the
  environment: \<open>fails env c\<close> is the driver's error for the call \<open>c\<close>, if any. SQL's
  \<open>NOW()\<close> and Go's \<open>time.Now()\<close> are the one reading \<open>now\<close> of the operation, in
  nanoseconds. Logging touches none of this state and is left out; the metrics are counters
  and gauges outside the database, modelled in the service as far as a call on them can
  panic.
\<close>

datatype pval = PStr string | PDec decimal | PTime time

text \<open>A JSON document (\<open>json.RawMessage\<close>, the JSONB column): \<open>null\<close>, the encoding of
  an order, or any other bytes.\<close>

datatype json = JNull | JOrder Order | JRaw string

record OutboxEvent =
  EventID :: uuid
  AggregateID :: uuid
  AggregateType :: string
  EventType :: string
  EventPayload :: "(string \<times> pval) list"
  EventSagaID :: "uuid option"
  CreatedAt :: time
  ProcessedAt :: "time option"
  RetryCount :: int
  MaxRetries :: int
  LastError :: "string option"

record IdempotencyRow =
  request_hash :: string
  response_data :: json
  created_at :: time
  expires_at :: time

record Tables =
  orders_tbl :: "Order list"
  outbox_events_tbl :: "OutboxEvent list"
  idempotency_keys_tbl :: "string \<rightharpoonup> IdempotencyRow"

text \<open>The calls an operation of the service can make: on the pool, on a transaction, and
  the methods of the repositories that take part in a transaction. The world keeps the
  calls made, in order.\<close>

datatype call =
    IdempotencyCheck string
  | DbBegin
  | TxCommit
  | TxRollback
  | OrderCreate
  | OrderGetByIDForUpdate uuid
  | OrderUpdate uuid
  | OrderUpdateMatched uuid
  | OrderSettle uuid
  | OutboxCreate string
  | IdempotencyStoreInTransaction string

text \<open>
  What the code takes from libraries and from its environment: the validator's verdict on
  a \<open>required\<close> decimal field, \<open>ComputeRequestHash\<close> on each request type (JSON, then
  SHA-256; \<open>None\<close> is its error), \<open>json.Marshal\<close> of a response (an order, or nil) and
  \<open>json.Unmarshal\<close> into an order, \<open>UUID.String\<close>, the values \<open>uuid.New()\<close> returns
  (the n-th call returns \<open>uuid_New env n\<close>), the driver's failures, \<open>utf8.ValidString\<close>
  (which the metrics library applies to a label value), and whether the \<open>float64\<close>
  nearest to a decimal is zero (\<open>roundsToZero\<close>: the magnitude is below the smallest
  \<open>float64\<close>, or the decimal is zero).
\<close>

record PlaceOrderRequest =
  req_UserID :: uuid
  req_EventID :: string
  req_BetType :: string
  req_Selection :: string
  req_Amount :: decimal
  req_Odds :: decimal
  req_ReservationID :: "uuid option"
  req_SagaID :: "uuid option"
  req_IdempotencyKey :: string

record CancelOrderRequest =
  cancel_OrderID :: uuid
  cancel_SagaID :: "uuid option"
  cancel_IdempotencyKey :: string

record SettleOrderRequest =
  settle_OrderID :: uuid
  settle_Result :: string
  settle_ActualPayout :: decimal
  settle_SagaID :: "uuid option"
  settle_IdempotencyKey :: string

record Env =
  requiredDecimal :: "decimal \<Rightarrow> bool"
  hashPlace :: "PlaceOrderRequest \<Rightarrow> string option"
  hashCancel :: "CancelOrderRequest \<Rightarrow> string option"
  hashSettle :: "SettleOrderRequest \<Rightarrow> string option"
  marshal :: "Order option \<Rightarrow> json option"
  unmarshal :: "json \<Rightarrow> Order option"
  uuid_String :: "uuid \<Rightarrow> string"
  uuid_New :: "nat \<Rightarrow> uuid"
  fails :: "call \<Rightarrow> error option"
  utf8_ValidString :: "string \<Rightarrow> bool"
  roundsToZero :: "decimal \<Rightarrow> bool"

record World =
  committed :: Tables
  calls :: "call list"
  uuids_drawn :: nat

definition logCall :: "call \<Rightarrow> World \<Rightarrow> World" where
  "logCall c w = w\<lparr>calls := calls w @ [c]\<rparr>"

definition drawUUID :: "Env \<Rightarrow> World \<Rightarrow> uuid \<times> World" where
  "drawUUID env w = (uuid_New env (uuids_drawn w), w\<lparr>uuids_drawn := Suc (uuids_drawn w)\<rparr>)"

definition Hour :: time where "Hour = 3600 * 1000000000"

subsection \<open>Idempotency store (idempotency_repository.go)\<close>

text \<open>\<open>PostgresIdempotencyRepository.Check\<close>: the Go triple
  \<open>(responseData, exists, err)\<close>, with nil as \<open>None\<close>.\<close>

definition Check ::
  "Env \<Rightarrow> time \<Rightarrow> Tables \<Rightarrow> string \<Rightarrow> string \<Rightarrow> json option \<times> bool \<times> error option" where
  "Check env now t key requestHash =
     (case fails env (IdempotencyCheck key) of
        Some err \<Rightarrow> (None, False, Some (Wrap ''check idempotency key'' err))
      | None \<Rightarrow>
          (case idempotency_keys_tbl t key of
             None \<Rightarrow> (None, False, None)
           | Some row \<Rightarrow>
               if \<not> expires_at row > now then (None, False, None)
               else if request_hash row \<noteq> requestHash then (None, True, Some ErrIdempotencyMismatch)
               else (Some (response_data row), True, None)))"

text \<open>The live record of a key, in the words of the contract of \<open>Check\<close>: a record that
  has expired is treated as absent.\<close>

definition liveRecord :: "time \<Rightarrow> Tables \<Rightarrow> string \<Rightarrow> IdempotencyRow option" where
  "liveRecord now t key =
     (case idempotency_keys_tbl t key of
        None \<Rightarrow> None
      | Some row \<Rightarrow> if now < expires_at row then Some row else None)"

text \<open>\<open>StoreInTransaction\<close>: the upsert keeps \<open>created_at\<close> of a row that exists.\<close>

definition StoreInTransaction ::
  "Env \<Rightarrow> time \<Rightarrow> Tables \<Rightarrow> string \<Rightarrow> string \<Rightarrow> Order option \<Rightarrow> time \<Rightarrow> error + Tables" where
  "StoreInTransaction env now t key requestHash responseData ttl =
     (case marshal env responseData of
        None \<Rightarrow> Inl (Wrap ''marshal response data'' ErrJSON)
      | Some responseJSON \<Rightarrow>
          (case fails env (IdempotencyStoreInTransaction key) of
             Some err \<Rightarrow> Inl (Wrap ''store idempotency key in transaction'' err)
           | None \<Rightarrow>
               Inr (t\<lparr>idempotency_keys_tbl := (idempotency_keys_tbl t)
                      (key \<mapsto>
                         (case idempotency_keys_tbl t key of
                            None \<Rightarrow>
                              \<lparr>request_hash = requestHash, response_data = responseJSON,
                               created_at = now, expires_at = now + ttl\<rparr>
                          | Some row \<Rightarrow>
                              row\<lparr>request_hash := requestHash, response_data := responseJSON,
                                  expires_at := now + ttl\<rparr>))\<rparr>)))"

subsection \<open>Order store (PostgresOrderRepository)\<close>

text \<open>\<open>Create\<close> fills the order in before the INSERT and the caller sees the filled-in
  order; the row has no \<open>matched_at\<close> and no \<open>cancelled_at\<close>.\<close>

definition OrderRepo_Create ::
  "Env \<Rightarrow> time \<Rightarrow> World \<Rightarrow> Tables \<Rightarrow> Order \<Rightarrow> (error + Order \<times> Tables) \<times> World" where
  "OrderRepo_Create env now w t order =
     (let (o1, w1) = (if ID order = 0 then (case drawUUID env w of (u, w') \<Rightarrow> (order\<lparr>ID := u\<rparr>, w'))
                      else (order, w));
          o2 = (if PlacedAt o1 = 0 then o1\<lparr>PlacedAt := now\<rparr> else o1);
          o3 = o2\<lparr>Version := 1\<rparr>;
          o4 = (if SizeMatched o3 = 0 then o3\<lparr>SizeMatched := 0\<rparr> else o3);
          o5 = (if SizeRemaining o4 = 0 then o4\<lparr>SizeRemaining := Size o4\<rparr> else o4);
          o6 = (if Status o5 = [] then o5\<lparr>Status := OrderStatusPending\<rparr> else o5)
      in case fails env OrderCreate of
           Some err \<Rightarrow>
             if err = ErrUniqueViolation then (Inl (Wrap ''duplicate idempotency key'' err), w1)
             else (Inl (Wrap ''create order'' err), w1)
         | None \<Rightarrow>
             (Inr (o6, t\<lparr>orders_tbl := orders_tbl t @ [o6\<lparr>MatchedAt := None, CancelledAt := None\<rparr>]\<rparr>),
              w1))"

definition GetByIDForUpdate :: "Env \<Rightarrow> Tables \<Rightarrow> uuid \<Rightarrow> error + Order" where
  "GetByIDForUpdate env t oid =
     (case fails env (OrderGetByIDForUpdate oid) of
        Some err \<Rightarrow> Inl (Wrap ''scan order'' err)
      | None \<Rightarrow>
          (case find (\<lambda>row. ID row = oid) (orders_tbl t) of
             None \<Rightarrow> Inl ErrOrderNotFound
           | Some row \<Rightarrow> Inr row))"

text \<open>\<open>Update\<close>: the UPDATE writes every row with the order's id and version; no such row
  is the optimistic-lock failure. On success the order's version is incremented in memory.\<close>

definition OrderRepo_Update :: "Env \<Rightarrow> Tables \<Rightarrow> Order \<Rightarrow> error + Order \<times> Tables" where
  "OrderRepo_Update env t order =
     (case fails env (OrderUpdate (ID order)) of
        Some err \<Rightarrow> Inl (Wrap ''update order'' err)
      | None \<Rightarrow>
          if filter (\<lambda>row. ID row = ID order \<and> Version row = Version order) (orders_tbl t) = []
          then Inl ErrOptimisticLock
          else
            Inr (order\<lparr>Version := Version order + 1\<rparr>,
                 t\<lparr>orders_tbl :=
                     map (\<lambda>row. if ID row = ID order \<and> Version row = Version order
                                then row\<lparr>SizeMatched := SizeMatched order,
                                         SizeRemaining := SizeRemaining order,
                                         Status := Status order,
                                         MatchedAt := MatchedAt order,
                                         CancelledAt := CancelledAt order,
                                         Version := Version row + 1\<rparr>
                                else row)
                       (orders_tbl t)\<rparr>))"

text \<open>\<open>Settle\<close>: the UPDATE is guarded by \<open>status = MATCHED\<close> and writes MATCHED again
  (the source's comment: settled orders remain matched); no row written is \<open>ErrInvalidOrderStatus\<close>. The
  service does not call it.\<close>

definition OrderRepo_Settle ::
  "Env \<Rightarrow> Tables \<Rightarrow> uuid \<Rightarrow> string \<Rightarrow> decimal \<Rightarrow> error + Tables" where
  "OrderRepo_Settle env t oid result actualPayout =
     (case fails env (OrderSettle oid) of
        Some err \<Rightarrow> Inl (Wrap ''settle order'' err)
      | None \<Rightarrow>
          if filter (\<lambda>row. ID row = oid \<and> Status row = OrderStatusMatched) (orders_tbl t) = []
          then Inl ErrInvalidOrderStatus
          else
            Inr (t\<lparr>orders_tbl :=
                     map (\<lambda>row. if ID row = oid \<and> Status row = OrderStatusMatched
                                then row\<lparr>Status := OrderStatusMatched, Version := Version row + 1\<rparr>
                                else row)
                       (orders_tbl t)\<rparr>))"

subsection \<open>Outbox store (PostgresOutboxRepository)\<close>

text \<open>The payload is a map of strings, which \<open>json.Marshal\<close> always encodes.\<close>

definition OutboxRepo_Create ::
  "Env \<Rightarrow> time \<Rightarrow> World \<Rightarrow> Tables \<Rightarrow> OutboxEvent \<Rightarrow> (error + Tables) \<times> World" where
  "OutboxRepo_Create env now w t event =
     (let (e1, w1) = (if EventID event = 0
                      then (case drawUUID env w of (u, w') \<Rightarrow> (event\<lparr>EventID := u\<rparr>, w'))
                      else (event, w));
          e2 = e1\<lparr>CreatedAt := now\<rparr>
      in case fails env (OutboxCreate (EventType event)) of
           Some err \<Rightarrow> (Inl (Wrap ''create outbox event'' err), w1)
         | None \<Rightarrow> (Inr (t\<lparr>outbox_events_tbl := outbox_events_tbl t @ [e2]\<rparr>), w1))"

section \<open>The order service (internal/service/order_service.go)\<close>

text \<open>
  \<open>OrderServiceImpl\<close> has the database, the three repositories, metrics, a logger and a
  validator; it has no matching engine. An operation takes the world (the committed
  tables, the calls made so far, the UUIDs drawn) and returns its result and the world
  after it. The struct tags of the request types are the validator's rules:
  \<open>required\<close> on a UUID or a string rejects the zero value, \<open>oneof=win loss\<close> admits the
  two words.
\<close>

definition validatePlaceOrderRequest :: "Env \<Rightarrow> PlaceOrderRequest \<Rightarrow> bool" where
  "validatePlaceOrderRequest env req \<longleftrightarrow>
     req_UserID req \<noteq> 0 \<and> req_EventID req \<noteq> [] \<and> req_BetType req \<noteq> [] \<and>
     req_Selection req \<noteq> [] \<and> requiredDecimal env (req_Amount req) \<and>
     requiredDecimal env (req_Odds req) \<and> req_IdempotencyKey req \<noteq> []"

definition validateCancelOrderRequest :: "Env \<Rightarrow> CancelOrderRequest \<Rightarrow> bool" where
  "validateCancelOrderRequest env req \<longleftrightarrow>
     cancel_OrderID req \<noteq> 0 \<and> cancel_IdempotencyKey req \<noteq> []"

definition validateSettleOrderRequest :: "Env \<Rightarrow> SettleOrderRequest \<Rightarrow> bool" where
  "validateSettleOrderRequest env req \<longleftrightarrow>
     settle_OrderID req \<noteq> 0 \<and>
     settle_Result req \<noteq> [] \<and> (settle_Result req = ''win'' \<or> settle_Result req = ''loss'') \<and>
     requiredDecimal env (settle_ActualPayout req) \<and> settle_IdempotencyKey req \<noteq> []"

text \<open>The end of a transaction: \<open>tx.Commit\<close> followed by the deferred \<open>tx.Rollback\<close>
  (which does nothing after a commit), and the deferred \<open>tx.Rollback\<close> alone on an error
  path, which drops the transaction's copy of the tables.\<close>

definition commitTx :: "Env \<Rightarrow> World \<Rightarrow> Tables \<Rightarrow> 'a \<Rightarrow> (error + 'a) \<times> World" where
  "commitTx env w t r =
     (case fails env TxCommit of
        Some err \<Rightarrow>
          (Inl (Wrap ''failed to commit transaction'' err), logCall TxRollback (logCall TxCommit w))
      | None \<Rightarrow> (Inr r, logCall TxRollback ((logCall TxCommit w)\<lparr>committed := t\<rparr>)))"

definition rollbackTx :: "World \<Rightarrow> World" where
  "rollbackTx w = logCall TxRollback w"

text \<open>
  The metrics (internal/observability/metrics.go, the Prometheus client) are updated after
  \<open>tx.Commit\<close> has returned nil. Two of the calls can panic. \<open>CounterVec.WithLabelValues\<close>
  panics unless it is given one value for each label of the vector (every call of the
  service does: two values for \<open>market, side\<close>, one for \<open>reason\<close>, one for \<open>result\<close>) and
  each value is valid UTF-8. \<open>Counter.Add v\<close> panics when \<open>v < 0\<close>; its argument is
  \<open>Decimal.InexactFloat64\<close>, the \<open>float64\<close> nearest to the decimal, which is below zero when
  the decimal is negative and does not round to (negative) zero. \<open>Inc\<close> and \<open>Dec\<close> do not
  fail. A metrics step is \<open>None\<close> when it returns and \<open>Some (Panic msg)\<close> when it panics.

  A panic ends the operation without a return value: the result is \<open>Inl (Panic msg)\<close>. It
  happens after the commit, so the world is the one the commit left, with the deferred
  \<open>tx.Rollback\<close> run while the panic unwinds.
\<close>

definition WithLabelValues :: "Env \<Rightarrow> string list \<Rightarrow> error option" where
  "WithLabelValues env lvs =
     (if list_all (utf8_ValidString env) lvs then None
      else Some (Panic ''label value is not valid UTF-8''))"

definition Counter_Add :: "Env \<Rightarrow> decimal \<Rightarrow> error option" where
  "Counter_Add env v =
     (if v < 0 \<and> \<not> roundsToZero env v then Some (Panic ''counter cannot decrease in value'')
      else None)"

definition updateMetrics :: "error option \<Rightarrow> (error + 'a) \<times> World \<Rightarrow> (error + 'a) \<times> World" where
  "updateMetrics metrics r =
     (case r of
        (Inl err, w) \<Rightarrow> (Inl err, w)
      | (Inr v, w) \<Rightarrow> (case metrics of Some p \<Rightarrow> (Inl p, w) | None \<Rightarrow> (Inr v, w)))"

text \<open>\<open>PlaceOrder\<close>, lines 94-170: the order literal (with the two optional identifiers
  filled in), the \<open>order.placed\<close> event, the metrics of lines 168-170, and the body of the
  transaction, which ends with the commit and the metrics.\<close>

definition PlaceOrder_metrics :: "Env \<Rightarrow> PlaceOrderRequest \<Rightarrow> error option" where
  "PlaceOrder_metrics env req =
     (case WithLabelValues env [req_BetType req, req_Selection req] of
        Some p \<Rightarrow> Some p
      | None \<Rightarrow> Counter_Add env (req_Amount req))"

definition newOrder :: "Env \<Rightarrow> uuid \<Rightarrow> time \<Rightarrow> PlaceOrderRequest \<Rightarrow> Order" where
  "newOrder env u now req =
     \<lparr>ID = u, UserID = req_UserID req, MarketID = req_EventID req,
      SelectionID = req_Selection req, Side = req_BetType req, Price = req_Odds req,
      Size = req_Amount req, SizeMatched = 0, SizeRemaining = req_Amount req,
      Status = OrderStatusPending,
      ReservationID = (case req_ReservationID req of None \<Rightarrow> [] | Some r \<Rightarrow> uuid_String env r),
      SagaID = (case req_SagaID req of None \<Rightarrow> [] | Some g \<Rightarrow> uuid_String env g),
      IdempotencyKey = req_IdempotencyKey req, PlacedAt = now, MatchedAt = None,
      CancelledAt = None, Version = 1\<rparr>"

definition placedEvent :: "Env \<Rightarrow> PlaceOrderRequest \<Rightarrow> Order \<Rightarrow> OutboxEvent" where
  "placedEvent env req order =
     \<lparr>EventID = 0, AggregateID = ID order, AggregateType = ''order'',
      EventType = ''order.placed'',
      EventPayload =
        [(''order_id'', PStr (uuid_String env (ID order))),
         (''user_id'', PStr (uuid_String env (UserID order))),
         (''event_id'', PStr (req_EventID req)),
         (''bet_type'', PStr (req_BetType req)),
         (''selection'', PStr (req_Selection req)),
         (''amount'', PDec (req_Amount req)),
         (''odds'', PDec (req_Odds req)),
         (''potential_payout'', PDec (req_Amount req * req_Odds req)),
         (''reservation_id'', PStr (ReservationID order)),
         (''placed_at'', PTime (PlacedAt order))],
      EventSagaID = req_SagaID req, CreatedAt = 0, ProcessedAt = None,
      RetryCount = 0, MaxRetries = 0, LastError = None\<rparr>"

definition PlaceOrder_tx ::
  "Env \<Rightarrow> time \<Rightarrow> World \<Rightarrow> PlaceOrderRequest \<Rightarrow> string \<Rightarrow> (error + Order) \<times> World" where
  "PlaceOrder_tx env now w req requestHash =
     (case drawUUID env w of
        (u, w1) \<Rightarrow>
          (case OrderRepo_Create env now (logCall OrderCreate w1) (committed w1)
                  (newOrder env u now req) of
             (Inl err, w2) \<Rightarrow> (Inl (Wrap ''failed to create order'' err), rollbackTx w2)
           | (Inr (order, t1), w2) \<Rightarrow>
               (case OutboxRepo_Create env now (logCall (OutboxCreate ''order.placed'') w2) t1
                       (placedEvent env req order) of
                  (Inl err, w3) \<Rightarrow> (Inl (Wrap ''failed to insert outbox event'' err), rollbackTx w3)
                | (Inr t2, w3) \<Rightarrow>
                    (let w4 = logCall (IdempotencyStoreInTransaction (req_IdempotencyKey req)) w3
                     in (case StoreInTransaction env now t2 (req_IdempotencyKey req) requestHash
                               (Some order) (24 * Hour) of
                           Inl err \<Rightarrow>
                             (Inl (Wrap ''failed to store idempotency key'' err), rollbackTx w4)
                         | Inr t3 \<Rightarrow>
                             updateMetrics (PlaceOrder_metrics env req)
                               (commitTx env w4 t3 order))))))"

definition PlaceOrder ::
  "Env \<Rightarrow> time \<Rightarrow> World \<Rightarrow> PlaceOrderRequest \<Rightarrow> (error + Order) \<times> World" where
  "PlaceOrder env now w req =
     (if \<not> validatePlaceOrderRequest env req then (Inl (Wrap ''validation failed'' ErrValidation), w)
      else
        (case hashPlace env req of
           None \<Rightarrow> (Inl (Wrap ''failed to compute request hash'' ErrJSON), w)
         | Some requestHash \<Rightarrow>
             (let w1 = logCall (IdempotencyCheck (req_IdempotencyKey req)) w
              in (case Check env now (committed w) (req_IdempotencyKey req) requestHash of
                    (cachedResponse, exists, Some err) \<Rightarrow>
                      (if err = ErrIdempotencyMismatch then (Inl err, w1)
                       else (Inl (Wrap ''failed to check idempotency'' err), w1))
                  | (cachedResponse, exists, None) \<Rightarrow>
                      (if exists then
                         (case Option.bind cachedResponse (unmarshal env) of
                            None \<Rightarrow> (Inl (Wrap ''failed to unmarshal cached response'' ErrJSON), w1)
                          | Some order \<Rightarrow> (Inr order, w1))
                       else
                         (let w2 = logCall DbBegin w1
                          in (case fails env DbBegin of
                                Some err \<Rightarrow> (Inl (Wrap ''failed to start transaction'' err), w2)
                              | None \<Rightarrow> PlaceOrder_tx env now w2 req requestHash)))))))"

text \<open>\<open>CancelOrder\<close>, lines 220-274: the \<open>order.cancelled\<close> event, the metrics of lines
  273-274 (the label is the side of the order read), and the body of the transaction.\<close>

definition CancelOrder_metrics :: "Env \<Rightarrow> Order \<Rightarrow> error option" where
  "CancelOrder_metrics env order = WithLabelValues env [Side order]"

definition cancelledEvent :: "Env \<Rightarrow> time \<Rightarrow> CancelOrderRequest \<Rightarrow> Order \<Rightarrow> OutboxEvent" where
  "cancelledEvent env now req order =
     \<lparr>EventID = 0, AggregateID = ID order, AggregateType = ''order'',
      EventType = ''order.cancelled'',
      EventPayload =
        [(''order_id'', PStr (uuid_String env (ID order))),
         (''user_id'', PStr (uuid_String env (UserID order))),
         (''cancelled_at'', PTime now)],
      EventSagaID = cancel_SagaID req, CreatedAt = 0, ProcessedAt = None,
      RetryCount = 0, MaxRetries = 0, LastError = None\<rparr>"

definition CancelOrder_tx ::
  "Env \<Rightarrow> time \<Rightarrow> World \<Rightarrow> CancelOrderRequest \<Rightarrow> string \<Rightarrow> (error + unit) \<times> World" where
  "CancelOrder_tx env now w req requestHash =
     (let w1 = logCall (OrderGetByIDForUpdate (cancel_OrderID req)) w
      in (case GetByIDForUpdate env (committed w) (cancel_OrderID req) of
            Inl err \<Rightarrow>
              (if err = ErrOrderNotFound then (Inl err, rollbackTx w1)
               else (Inl (Wrap ''failed to get order'' err), rollbackTx w1))
          | Inr order \<Rightarrow>
              (if Status order \<noteq> OrderStatusPending \<and> Status order \<noteq> OrderStatusPartially then
                 (Inl (Errorf (''order cannot be cancelled: status='' @ Status order)), rollbackTx w1)
               else
                 (let order1 = order\<lparr>Status := OrderStatusCancelled, CancelledAt := Some now\<rparr>;
                      w2 = logCall (OrderUpdate (ID order1)) w1
                  in (case OrderRepo_Update env (committed w) order1 of
                        Inl err \<Rightarrow> (Inl (Wrap ''failed to update order'' err), rollbackTx w2)
                      | Inr (order2, t1) \<Rightarrow>
                          (case OutboxRepo_Create env now
                                  (logCall (OutboxCreate ''order.cancelled'') w2) t1
                                  (cancelledEvent env now req order2) of
                             (Inl err, w3) \<Rightarrow>
                               (Inl (Wrap ''failed to insert outbox event'' err), rollbackTx w3)
                           | (Inr t2, w3) \<Rightarrow>
                               (let w4 = logCall
                                      (IdempotencyStoreInTransaction (cancel_IdempotencyKey req)) w3
                                in (case StoreInTransaction env now t2 (cancel_IdempotencyKey req)
                                          requestHash None (24 * Hour) of
                                      Inl err \<Rightarrow>
                                        (Inl (Wrap ''failed to store idempotency key'' err),
                                         rollbackTx w4)
                                    | Inr t3 \<Rightarrow>
                                        updateMetrics (CancelOrder_metrics env order2)
                                          (commitTx env w4 t3 ())))))))))"

definition CancelOrder ::
  "Env \<Rightarrow> time \<Rightarrow> World \<Rightarrow> CancelOrderRequest \<Rightarrow> (error + unit) \<times> World" where
  "CancelOrder env now w req =
     (if \<not> validateCancelOrderRequest env req then (Inl (Wrap ''validation failed'' ErrValidation), w)
      else
        (case hashCancel env req of
           None \<Rightarrow> (Inl (Wrap ''failed to compute request hash'' ErrJSON), w)
         | Some requestHash \<Rightarrow>
             (let w1 = logCall (IdempotencyCheck (cancel_IdempotencyKey req)) w
              in (case Check env now (committed w) (cancel_IdempotencyKey req) requestHash of
                    (cachedResponse, exists, Some err) \<Rightarrow>
                      (if err = ErrIdempotencyMismatch then (Inl err, w1)
                       else (Inl (Wrap ''failed to check idempotency'' err), w1))
                  | (cachedResponse, exists, None) \<Rightarrow>
                      (if exists then (Inr (), w1)
                       else
                         (let w2 = logCall DbBegin w1
                          in (case fails env DbBegin of
                                Some err \<Rightarrow> (Inl (Wrap ''failed to start transaction'' err), w2)
                              | None \<Rightarrow> CancelOrder_tx env now w2 req requestHash)))))))"

text \<open>\<open>SettleOrder\<close>, lines 320-378: the \<open>order.settled\<close> event, the metrics of lines
  375-378 (the payout is added for a win only), and the body of the transaction.\<close>

definition SettleOrder_metrics :: "Env \<Rightarrow> SettleOrderRequest \<Rightarrow> error option" where
  "SettleOrder_metrics env req =
     (case WithLabelValues env [settle_Result req] of
        Some p \<Rightarrow> Some p
      | None \<Rightarrow>
          (if settle_Result req = ''win'' then Counter_Add env (settle_ActualPayout req)
           else None))"

definition settledEvent :: "Env \<Rightarrow> time \<Rightarrow> SettleOrderRequest \<Rightarrow> Order \<Rightarrow> OutboxEvent" where
  "settledEvent env now req order =
     \<lparr>EventID = 0, AggregateID = ID order, AggregateType = ''order'',
      EventType = ''order.settled'',
      EventPayload =
        [(''order_id'', PStr (uuid_String env (ID order))),
         (''user_id'', PStr (uuid_String env (UserID order))),
         (''result'', PStr (settle_Result req)),
         (''actual_payout'', PDec (settle_ActualPayout req)),
         (''settled_at'', PTime now)],
      EventSagaID = settle_SagaID req, CreatedAt = 0, ProcessedAt = None,
      RetryCount = 0, MaxRetries = 0, LastError = None\<rparr>"

definition SettleOrder_tx ::
  "Env \<Rightarrow> time \<Rightarrow> World \<Rightarrow> SettleOrderRequest \<Rightarrow> string \<Rightarrow> (error + unit) \<times> World" where
  "SettleOrder_tx env now w req requestHash =
     (let w1 = logCall (OrderGetByIDForUpdate (settle_OrderID req)) w
      in (case GetByIDForUpdate env (committed w) (settle_OrderID req) of
            Inl err \<Rightarrow> (Inl (Wrap ''failed to get order'' err), rollbackTx w1)
          | Inr order \<Rightarrow>
              (let newStatus =
                     (if settle_Result req = ''win'' then ''settled_win'' else ''settled_loss'');
                   order1 = order\<lparr>Status := newStatus\<rparr>;
                   w2 = logCall (OrderUpdate (ID order1)) w1
               in (case OrderRepo_Update env (committed w) order1 of
                     Inl err \<Rightarrow> (Inl (Wrap ''failed to update order'' err), rollbackTx w2)
                   | Inr (order2, t1) \<Rightarrow>
                       (case OutboxRepo_Create env now
                               (logCall (OutboxCreate ''order.settled'') w2) t1
                               (settledEvent env now req order2) of
                          (Inl err, w3) \<Rightarrow>
                            (Inl (Wrap ''failed to insert outbox event'' err), rollbackTx w3)
                        | (Inr t2, w3) \<Rightarrow>
                            (let w4 = logCall
                                   (IdempotencyStoreInTransaction (settle_IdempotencyKey req)) w3
                             in (case StoreInTransaction env now t2 (settle_IdempotencyKey req)
                                       requestHash None (24 * Hour) of
                                   Inl err \<Rightarrow>
                                     (Inl (Wrap ''failed to store idempotency key'' err),
                                      rollbackTx w4)
                                 | Inr t3 \<Rightarrow>
                                     updateMetrics (SettleOrder_metrics env req)
                                       (commitTx env w4 t3 ()))))))))"

definition SettleOrder ::
  "Env \<Rightarrow> time \<Rightarrow> World \<Rightarrow> SettleOrderRequest \<Rightarrow> (error + unit) \<times> World" where
  "SettleOrder env now w req =
     (if \<not> validateSettleOrderRequest env req then (Inl (Wrap ''validation failed'' ErrValidation), w)
      else
        (case hashSettle env req of
           None \<Rightarrow> (Inl (Wrap ''failed to compute request hash'' ErrJSON), w)
         | Some requestHash \<Rightarrow>
             (let w1 = logCall (IdempotencyCheck (settle_IdempotencyKey req)) w
              in (case Check env now (committed w) (settle_IdempotencyKey req) requestHash of
                    (cachedResponse, exists, Some err) \<Rightarrow>
                      (if err = ErrIdempotencyMismatch then (Inl err, w1)
                       else (Inl (Wrap ''failed to check idempotency'' err), w1))
                  | (cachedResponse, exists, None) \<Rightarrow>
                      (if exists then (Inr (), w1)
                       else
                         (let w2 = logCall DbBegin w1
                          in (case fails env DbBegin of
                                Some err \<Rightarrow> (Inl (Wrap ''failed to start transaction'' err), w2)
                              | None \<Rightarrow> SettleOrder_tx env now w2 req requestHash)))))))"

text \<open>\<open>GetActiveOrders\<close>, lines 446-450.\<close>

definition GetActiveOrders :: "World \<Rightarrow> int \<Rightarrow> int \<Rightarrow> (error + Order list) \<times> World" where
  "GetActiveOrders w limit offset = (Inr [], w)"

section \<open>Example data\<close>

definition exOrder :: "uuid \<Rightarrow> OrderSide \<Rightarrow> decimal \<Rightarrow> decimal \<Rightarrow> OrderStatus \<Rightarrow> Order" where
  "exOrder i s p z st =
     \<lparr>ID = i, UserID = 100 + i, MarketID = ''match-winner'', SelectionID = ''team-a'', Side = s,
      Price = p, Size = z, SizeMatched = 0, SizeRemaining = z, Status = st,
      ReservationID = [], SagaID = [], IdempotencyKey = ''key'', PlacedAt = 1,
      MatchedAt = None, CancelledAt = None, Version = 1\<rparr>"

definition exHeap :: heap where
  "exHeap = (\<lambda>_. exOrder 0 OrderSideBack 0 0 OrderStatusPending)
     (1 := exOrder 1 OrderSideBack (5 / 2) 10 OrderStatusPending,
      2 := exOrder 2 OrderSideLay 2 10 OrderStatusPending,
      3 := exOrder 3 OrderSideBack 2 10 OrderStatusPending)"

definition exEngine :: Engine where
  "exEngine = NewEngine ''match-winner'' ''team-a''"

text \<open>The book after the lay order at address 2 (price 2, size 10) has been placed.\<close>

definition exEngine1 :: Engine where
  "exEngine1 =
     \<lparr>marketID = ''match-winner'', selectionID = ''team-a'', backOrders = Map.empty,
      layOrders = [2 \<mapsto> \<lparr>price = 2, orders = [2]\<rparr>], backPrices = [], layPrices = [2]\<rparr>"

text \<open>An environment in which no call of the driver fails; the strings of the examples
  are ASCII, so every label is valid UTF-8, and of their decimals only zero rounds to
  zero.\<close>

definition exEnv :: Env where
  "exEnv =
     \<lparr>requiredDecimal = (\<lambda>d. True),
      hashPlace = (\<lambda>r. Some (''place:'' @ req_EventID r @ req_BetType r)),
      hashCancel = (\<lambda>r. Some ''cancel''),
      hashSettle = (\<lambda>r. Some (''settle:'' @ settle_Result r)),
      marshal = (\<lambda>r. Some (case r of None \<Rightarrow> JNull | Some ord \<Rightarrow> JOrder ord)),
      unmarshal = (\<lambda>j. case j of JOrder ord \<Rightarrow> Some ord | _ \<Rightarrow> None),
      uuid_String = (\<lambda>u. replicate u (CHR ''x'')),
      uuid_New = (\<lambda>n. 10 + n),
      fails = (\<lambda>c. None),
      utf8_ValidString = (\<lambda>s. True),
      roundsToZero = (\<lambda>d. d = 0)\<rparr>"

definition exWorld :: "Order list \<Rightarrow> World" where
  "exWorld rows =
     \<lparr>committed = \<lparr>orders_tbl = rows, outbox_events_tbl = [], idempotency_keys_tbl = Map.empty\<rparr>,
      calls = [], uuids_drawn = 0\<rparr>"

definition exPlace :: PlaceOrderRequest where
  "exPlace =
     \<lparr>req_UserID = 7, req_EventID = ''match-winner'', req_BetType = ''BACK'',
      req_Selection = ''team-a'', req_Amount = 10, req_Odds = 2, req_ReservationID = None,
      req_SagaID = None, req_IdempotencyKey = ''k1''\<rparr>"

definition exCancel :: "uuid \<Rightarrow> CancelOrderRequest" where
  "exCancel i = \<lparr>cancel_OrderID = i, cancel_SagaID = None, cancel_IdempotencyKey = ''k2''\<rparr>"

definition exSettle :: "uuid \<Rightarrow> string \<Rightarrow> SettleOrderRequest" where
  "exSettle i r =
     \<lparr>settle_OrderID = i, settle_Result = r, settle_ActualPayout = 20, settle_SagaID = None,
      settle_IdempotencyKey = ''k3''\<rparr>"

definition exTables :: Tables where
  "exTables =
     \<lparr>orders_tbl = [], outbox_events_tbl = [],
      idempotency_keys_tbl =
        [''k1'' \<mapsto> \<lparr>request_hash = ''h1'', response_data = JNull, created_at = 1,
                      expires_at = 10\<rparr>]\<rparr>"

text \<open>A resting lay order at price 2 for 10, as a row, pending and fully matched.\<close>

definition exRow :: "OrderStatus \<Rightarrow> Order" where
  "exRow st = exOrder 2 OrderSideLay 2 10 st"

section \<open>Properties of the matching engine\<close>

lemmas status_defs =
  OrderStatusPending_def OrderStatusMatched_def OrderStatusPartially_def
  OrderStatusCancelled_def OrderStatusExpired_def

lemmas ex_defs =
  exOrder_def exHeap_def exEngine_def exEngine1_def exEnv_def exWorld_def exPlace_def
  exCancel_def exSettle_def exTables_def exRow_def

lemmas engine_defs =
  Engine_PlaceOrder_def placeBackOrder_def placeLayOrder_def addBackOrder_def addLayOrder_def
  matchOrders_def buildMatch_def addMatched_def insertPriceDescending_def
  insertPriceAscending_def NewEngine_def Engine_CancelOrder_def cancelAt_def
  OrderSideBack_def OrderSideLay_def

subsection \<open>The loop of matchOrders, one step at a time\<close>

lemma matchOrders_loop_stop:
  assumes "\<not> (i < length os \<and> SizeRemaining (h inc) \<noteq> 0)"
  shows "matchOrders_loop e now inc p i h os acc = (acc, h, os)"
  by (subst matchOrders_loop.simps) (simp only: assms if_False)

lemma matchOrders_loop_step:
  assumes "i < length os" "SizeRemaining (h inc) \<noteq> 0"
  shows "matchOrders_loop e now inc p i h os acc =
     (let existing = os ! i;
          matchSize = min (SizeRemaining (h inc)) (SizeRemaining (h existing));
          match = buildMatch e now (h inc) (h existing) p matchSize;
          h2 = addMatched (addMatched h inc matchSize) existing matchSize
      in if SizeRemaining (h2 existing) = 0 then
           matchOrders_loop e now inc p i
             (h2(existing := (h2 existing)\<lparr>MatchedAt := Some now, Status := OrderStatusMatched\<rparr>))
             (take i os @ drop (Suc i) os) (acc @ [match])
         else
           matchOrders_loop e now inc p (Suc i)
             (h2(existing := (h2 existing)\<lparr>Status := OrderStatusPartially\<rparr>))
             os (acc @ [match]))"
  using assms by (subst matchOrders_loop.simps) (simp add: Let_def)

subsection \<open>A crossing order, evaluated\<close>

lemma ex_first_lay:
  "Engine_PlaceOrder 5 exEngine exHeap 2 \<noteq> None \<and>
   fst (snd (the (Engine_PlaceOrder 5 exEngine exHeap 2))) = exEngine1"
  by (simp add: engine_defs ex_defs status_defs)

lemma ex_cross:
  "Engine_PlaceOrder 6 exEngine1 exHeap 3 \<noteq> None \<and>
   map MatchSize (fst (the (Engine_PlaceOrder 6 exEngine1 exHeap 3))) = [10] \<and>
   map MatchPrice (fst (the (Engine_PlaceOrder 6 exEngine1 exHeap 3))) = [2] \<and>
   layPrices (fst (snd (the (Engine_PlaceOrder 6 exEngine1 exHeap 3)))) = [2] \<and>
   map_option orders (layOrders (fst (snd (the (Engine_PlaceOrder 6 exEngine1 exHeap 3)))) 2) = Some []"
  by (simp add: engine_defs ex_defs status_defs matchOrders_loop.simps)

lemma ex_cancel:
  "\<not> isl (Engine_CancelOrder [] [2] 7 exEngine1 exHeap 2) \<and>
   layPrices (fst (projr (Engine_CancelOrder [] [2] 7 exEngine1 exHeap 2))) = [2] \<and>
   map_option orders (layOrders (fst (projr (Engine_CancelOrder [] [2] 7 exEngine1 exHeap 2))) 2) = Some []"
  by (simp add: engine_defs ex_defs status_defs)

subsection \<open>Status of an order that rests\<close>

text \<open>
  C2. An order that still has size remaining after the walk is appended to the queue of
  its price and should end PARTIALLY if the walk matched something and PENDING if it
  matched nothing. In the code \<open>addBackOrder\<close> sets PENDING and \<open>placeBackOrder\<close> then
  overwrites it with PARTIALLY without looking at the matches: a back order at 2.5 for 10
  placed into the empty book comes back with no match, queued at the tail of level 2.5,
  and with status PARTIALLY.
\<close>

theorem unmatched_order_rests_partially:
  "Engine_PlaceOrder 5 exEngine exHeap 1 \<noteq> None \<and>
   fst (the (Engine_PlaceOrder 5 exEngine exHeap 1)) = [] \<and>
   SizeRemaining (snd (snd (the (Engine_PlaceOrder 5 exEngine exHeap 1))) 1) = 10 \<and>
   map_option orders (backOrders (fst (snd (the (Engine_PlaceOrder 5 exEngine exHeap 1)))) (5 / 2))
     = Some [1] \<and>
   Status (snd (snd (the (Engine_PlaceOrder 5 exEngine exHeap 1))) 1) = OrderStatusPartially \<and>
   OrderStatusPartially \<noteq> OrderStatusPending"
  by (simp add: engine_defs ex_defs status_defs)

subsection \<open>Price levels are never erased\<close>

lemma set_insertPriceDescending: "set (insertPriceDescending ps p) = insert p (set ps)"
proof -
  have "set (take i ps) \<union> set (drop i ps) = set ps" for i
    by (metis append_take_drop_id set_append)
  then show ?thesis by (auto simp: insertPriceDescending_def Let_def)
qed

lemma set_insertPriceAscending: "set (insertPriceAscending ps p) = insert p (set ps)"
proof -
  have "set (take i ps) \<union> set (drop i ps) = set ps" for i
    by (metis append_take_drop_id set_append)
  then show ?thesis by (auto simp: insertPriceAscending_def Let_def)
qed

lemma levels_present_iff:
  "levels_present e \<longleftrightarrow>
     set (backPrices e) \<subseteq> dom (backOrders e) \<and> set (layPrices e) \<subseteq> dom (layOrders e)"
  by (auto simp: levels_present_def list_all_iff)

lemma placeBackOrder_walk_keeps:
  assumes "\<forall>p \<in> set ps. layOrders e p \<noteq> None"
  shows "\<exists>ms e' h'. placeBackOrder_walk now order ps e h matches = Some (ms, e', h') \<and>
           backOrders e' = backOrders e \<and> backPrices e' = backPrices e \<and>
           layPrices e' = layPrices e \<and> dom (layOrders e') = dom (layOrders e)"
  using assms
proof (induction ps arbitrary: e h matches)
  case Nil
  then show ?case by simp
next
  case (Cons lp rest)
  show ?case
  proof (cases "SizeRemaining (h order) = 0 \<or> Price (h order) < lp")
    case True
    then show ?thesis by auto
  next
    case False
    from Cons.prems obtain queue where q: "layOrders e lp = Some queue" by auto
    obtain nm h1 q1 where m: "matchOrders e now h order queue lp = (nm, h1, q1)"
      by (cases "matchOrders e now h order queue lp")
    define e1 where "e1 = e\<lparr>layOrders := (layOrders e)(lp \<mapsto> q1)\<rparr>"
    have "\<forall>p \<in> set rest. layOrders e1 p \<noteq> None"
      using Cons.prems by (simp add: e1_def)
    from Cons.IH[OF this, of h1 "matches @ nm"] obtain ms e' h' where
      r: "placeBackOrder_walk now order rest e1 h1 (matches @ nm) = Some (ms, e', h')"
        "backOrders e' = backOrders e1" "backPrices e' = backPrices e1"
        "layPrices e' = layPrices e1" "dom (layOrders e') = dom (layOrders e1)"
      by blast
    have "dom (layOrders e1) = dom (layOrders e)"
      using q by (auto simp: e1_def)
    with False q m r show ?thesis
      by (simp add: e1_def)
  qed
qed

lemma placeLayOrder_walk_keeps:
  assumes "\<forall>p \<in> set ps. backOrders e p \<noteq> None"
  shows "\<exists>ms e' h'. placeLayOrder_walk now order ps e h matches = Some (ms, e', h') \<and>
           layOrders e' = layOrders e \<and> backPrices e' = backPrices e \<and>
           layPrices e' = layPrices e \<and> dom (backOrders e') = dom (backOrders e)"
  using assms
proof (induction ps arbitrary: e h matches)
  case Nil
  then show ?case by simp
next
  case (Cons bp rest)
  show ?case
  proof (cases "SizeRemaining (h order) = 0 \<or> Price (h order) > bp")
    case True
    then show ?thesis by auto
  next
    case False
    from Cons.prems obtain queue where q: "backOrders e bp = Some queue" by auto
    obtain nm h1 q1 where m: "matchOrders e now h order queue bp = (nm, h1, q1)"
      by (cases "matchOrders e now h order queue bp")
    define e1 where "e1 = e\<lparr>backOrders := (backOrders e)(bp \<mapsto> q1)\<rparr>"
    have "\<forall>p \<in> set rest. backOrders e1 p \<noteq> None"
      using Cons.prems by (simp add: e1_def)
    from Cons.IH[OF this, of h1 "matches @ nm"] obtain ms e' h' where
      r: "placeLayOrder_walk now order rest e1 h1 (matches @ nm) = Some (ms, e', h')"
        "layOrders e' = layOrders e1" "backPrices e' = backPrices e1"
        "layPrices e' = layPrices e1" "dom (backOrders e') = dom (backOrders e1)"
      by blast
    have "dom (backOrders e1) = dom (backOrders e)"
      using q by (auto simp: e1_def)
    with False q m r show ?thesis
      by (simp add: e1_def)
  qed
qed

lemma addBackOrder_keeps:
  assumes "addBackOrder e h order = (e', h')"
  shows "layOrders e' = layOrders e \<and> layPrices e' = layPrices e \<and>
         dom (backOrders e') = insert (Price (h order)) (dom (backOrders e)) \<and>
         set (backPrices e') \<subseteq> insert (Price (h order)) (set (backPrices e)) \<and>
         set (backPrices e) \<subseteq> set (backPrices e')"
  using assms
  by (auto simp: addBackOrder_def Let_def set_insertPriceDescending split: option.splits)

lemma addLayOrder_keeps:
  assumes "addLayOrder e h order = (e', h')"
  shows "backOrders e' = backOrders e \<and> backPrices e' = backPrices e \<and>
         dom (layOrders e') = insert (Price (h order)) (dom (layOrders e)) \<and>
         set (layPrices e') \<subseteq> insert (Price (h order)) (set (layPrices e)) \<and>
         set (layPrices e) \<subseteq> set (layPrices e')"
  using assms
  by (auto simp: addLayOrder_def Let_def set_insertPriceAscending split: option.splits)

lemma Engine_PlaceOrder_keeps:
  assumes "levels_present e"
  shows "\<exists>ms e' h'. Engine_PlaceOrder now e h order = Some (ms, e', h') \<and> levels_present e' \<and>
           set (backPrices e) \<subseteq> set (backPrices e') \<and> set (layPrices e) \<subseteq> set (layPrices e') \<and>
           dom (backOrders e) \<subseteq> dom (backOrders e') \<and> dom (layOrders e) \<subseteq> dom (layOrders e')"
proof (cases "Side (h order) = OrderSideBack")
  case True
  from assms have "\<forall>p \<in> set (layPrices e). layOrders e p \<noteq> None"
    by (auto simp: levels_present_iff)
  from placeBackOrder_walk_keeps[OF this, of now order h "[]"] obtain ms e1 h1 where
    w: "placeBackOrder_walk now order (layPrices e) e h [] = Some (ms, e1, h1)"
      "backOrders e1 = backOrders e" "backPrices e1 = backPrices e"
      "layPrices e1 = layPrices e" "dom (layOrders e1) = dom (layOrders e)"
    by blast
  have l1: "levels_present e1"
    using assms w by (simp add: levels_present_iff)
  show ?thesis
  proof (cases "SizeRemaining (h1 order) = 0")
    case z: True
    with True w l1 show ?thesis
      by (simp add: Engine_PlaceOrder_def placeBackOrder_def)
  next
    case nz: False
    obtain e2 h2 where a: "addBackOrder e1 h1 order = (e2, h2)"
      by (cases "addBackOrder e1 h1 order")
    from addBackOrder_keeps[OF a] l1 w have "levels_present e2 \<and>
           set (backPrices e) \<subseteq> set (backPrices e2) \<and> set (layPrices e) \<subseteq> set (layPrices e2) \<and>
           dom (backOrders e) \<subseteq> dom (backOrders e2) \<and> dom (layOrders e) \<subseteq> dom (layOrders e2)"
      by (auto simp: levels_present_iff)
    with True w nz a show ?thesis
      by (simp add: Engine_PlaceOrder_def placeBackOrder_def)
  qed
next
  case False
  from assms have "\<forall>p \<in> set (backPrices e). backOrders e p \<noteq> None"
    by (auto simp: levels_present_iff)
  from placeLayOrder_walk_keeps[OF this, of now order h "[]"] obtain ms e1 h1 where
    w: "placeLayOrder_walk now order (backPrices e) e h [] = Some (ms, e1, h1)"
      "layOrders e1 = layOrders e" "backPrices e1 = backPrices e"
      "layPrices e1 = layPrices e" "dom (backOrders e1) = dom (backOrders e)"
    by blast
  have l1: "levels_present e1"
    using assms w by (simp add: levels_present_iff)
  show ?thesis
  proof (cases "SizeRemaining (h1 order) = 0")
    case z: True
    with False w l1 show ?thesis
      by (simp add: Engine_PlaceOrder_def placeLayOrder_def)
  next
    case nz: False
    obtain e2 h2 where a: "addLayOrder e1 h1 order = (e2, h2)"
      by (cases "addLayOrder e1 h1 order")
    from addLayOrder_keeps[OF a] l1 w have "levels_present e2 \<and>
           set (backPrices e) \<subseteq> set (backPrices e2) \<and> set (layPrices e) \<subseteq> set (layPrices e2) \<and>
           dom (backOrders e) \<subseteq> dom (backOrders e2) \<and> dom (layOrders e) \<subseteq> dom (layOrders e2)"
      by (auto simp: levels_present_iff)
    with False w nz a show ?thesis
      by (simp add: Engine_PlaceOrder_def placeLayOrder_def)
  qed
qed

lemma cancelScan_Some:
  "cancelScan h orderID m ks = Some (k, queue, i) \<Longrightarrow>
     m k = Some queue \<and> findOrder h orderID (orders queue) = Some i"
  by (induction ks) (auto split: option.splits)

lemma Engine_CancelOrder_keeps:
  assumes "Engine_CancelOrder bks lks now e h orderID = Inr (e', h')"
  shows "backPrices e' = backPrices e \<and> layPrices e' = layPrices e \<and>
         dom (backOrders e') = dom (backOrders e) \<and> dom (layOrders e') = dom (layOrders e)"
  using assms
  by (auto simp: Engine_CancelOrder_def split: option.splits if_splits dest!: cancelScan_Some)

text \<open>
  C3, as the code has it. After \<open>Engine.PlaceOrder\<close> and \<open>Engine.CancelOrder\<close> every
  price of \<open>backPrices\<close> and \<open>layPrices\<close> still has a queue in the map of its side, and
  that queue may be empty: no operation removes a key from a map or a price from a
  sequence. From a book in which every listed price has a queue, \<open>PlaceOrder\<close> returns
  (it does not panic) and the prices and keys it started with are all still there;
  \<open>CancelOrder\<close> leaves both price sequences and both key sets as they were.
\<close>

theorem levels_kept:
  assumes "levels_present e"
  shows "(\<exists>ms e' h'. Engine_PlaceOrder now e h order = Some (ms, e', h') \<and> levels_present e' \<and>
            set (backPrices e) \<subseteq> set (backPrices e') \<and> set (layPrices e) \<subseteq> set (layPrices e') \<and>
            dom (backOrders e) \<subseteq> dom (backOrders e') \<and> dom (layOrders e) \<subseteq> dom (layOrders e')) \<and>
         (case Engine_CancelOrder bks lks now' e h orderID of
            Inl err \<Rightarrow> True
          | Inr (e', h') \<Rightarrow>
              levels_present e' \<and> backPrices e' = backPrices e \<and> layPrices e' = layPrices e \<and>
              dom (backOrders e') = dom (backOrders e) \<and> dom (layOrders e') = dom (layOrders e))"
proof -
  have "levels_present e' \<and> backPrices e' = backPrices e \<and> layPrices e' = layPrices e \<and>
        dom (backOrders e') = dom (backOrders e) \<and> dom (layOrders e') = dom (layOrders e)"
    if "Engine_CancelOrder bks lks now' e h orderID = Inr (e', h')" for e' h'
    using Engine_CancelOrder_keeps[OF that] assms by (simp add: levels_present_iff)
  then show ?thesis
    using Engine_PlaceOrder_keeps[OF assms, of now h order]
    by (auto split: sum.splits)
qed

theorem levels_kept_witness:
  "levels_present exEngine1 \<and>
   (\<exists>ms e' h'. Engine_PlaceOrder 6 exEngine1 exHeap 3 = Some (ms, e', h') \<and> levels_present e' \<and>
      set (layPrices exEngine1) \<subseteq> set (layPrices e') \<and>
      dom (layOrders exEngine1) \<subseteq> dom (layOrders e')) \<and>
   levels_present (fst (projr (Engine_CancelOrder [] [2] 7 exEngine1 exHeap 2))) \<and>
   layPrices (fst (projr (Engine_CancelOrder [] [2] 7 exEngine1 exHeap 2))) = layPrices exEngine1"
proof -
  have l: "levels_present exEngine1"
    by (simp add: levels_present_def exEngine1_def)
  obtain e' h' where c: "Engine_CancelOrder [] [2] 7 exEngine1 exHeap 2 = Inr (e', h')"
    using ex_cancel by (cases "Engine_CancelOrder [] [2] 7 exEngine1 exHeap 2") auto
  from levels_kept[OF l, where now = 6 and h = exHeap and order = 3 and bks = "[]"
      and lks = "[2]" and now' = 7 and orderID = 2] c l show ?thesis
    by auto
qed

text \<open>The claim as the specification words it fails: when the lay order at price 2 is
  fully matched, and likewise when it is cancelled, price 2 stays in \<open>layPrices\<close> and
  maps to the empty queue.\<close>

theorem empty_level_not_erased:
  "Engine_PlaceOrder 6 exEngine1 exHeap 3 \<noteq> None \<and>
   layPrices (fst (snd (the (Engine_PlaceOrder 6 exEngine1 exHeap 3)))) = [2] \<and>
   map_option orders (layOrders (fst (snd (the (Engine_PlaceOrder 6 exEngine1 exHeap 3)))) 2) = Some [] \<and>
   \<not> isl (Engine_CancelOrder [] [2] 7 exEngine1 exHeap 2) \<and>
   layPrices (fst (projr (Engine_CancelOrder [] [2] 7 exEngine1 exHeap 2))) = [2] \<and>
   map_option orders (layOrders (fst (projr (Engine_CancelOrder [] [2] 7 exEngine1 exHeap 2))) 2) = Some []"
  using ex_cross ex_cancel by simp

subsection \<open>The fields of a match\<close>

lemma buildMatch_fields:
  "MatchPrice (buildMatch e now a b p z) = p \<and> MatchSize (buildMatch e now a b p z) = z \<and>
   BackLiability (buildMatch e now a b p z) = z \<and>
   LayLiability (buildMatch e now a b p z) = z * (p - 1)"
  by (simp add: buildMatch_def)

lemma matchOrders_loop_fields:
  "matchOrders_loop e now inc p i h os acc = (ms, h', os') \<Longrightarrow>
     \<exists>new. ms = acc @ new \<and>
       (\<forall>m \<in> set new. MatchPrice m = p \<and> BackLiability m = MatchSize m \<and>
                        LayLiability m = MatchSize m * (p - 1))"
proof (induction e now inc p i h os acc rule: matchOrders_loop.induct)
  case (1 e now inc p i h os acc)
  show ?case
  proof (cases "i < length os \<and> SizeRemaining (h inc) \<noteq> 0")
    case False
    with "1.prems" show ?thesis by (simp add: matchOrders_loop_stop)
  next
    case True
    define ex where "ex = os ! i"
    define z where "z = min (SizeRemaining (h inc)) (SizeRemaining (h ex))"
    define m where "m = buildMatch e now (h inc) (h ex) p z"
    define h1 where "h1 = addMatched h inc z"
    define h2 where "h2 = addMatched h1 ex z"
    have step: "matchOrders_loop e now inc p i h os acc =
       (if SizeRemaining (h2 ex) = 0 then
          matchOrders_loop e now inc p i
            (h2(ex := (h2 ex)\<lparr>MatchedAt := Some now, Status := OrderStatusMatched\<rparr>))
            (take i os @ drop (Suc i) os) (acc @ [m])
        else
          matchOrders_loop e now inc p (Suc i)
            (h2(ex := (h2 ex)\<lparr>Status := OrderStatusPartially\<rparr>)) os (acc @ [m]))"
      using True
      by (subst matchOrders_loop_step) (simp_all add: Let_def ex_def z_def m_def h1_def h2_def)
    have mf: "MatchPrice m = p \<and> BackLiability m = MatchSize m \<and>
              LayLiability m = MatchSize m * (p - 1)"
      by (simp add: m_def buildMatch_fields)
    show ?thesis
    proof (cases "SizeRemaining (h2 ex) = 0")
      case z0: True
      have "matchOrders_loop e now inc p i
               (h2(ex := (h2 ex)\<lparr>MatchedAt := Some now, Status := OrderStatusMatched\<rparr>))
               (take i os @ drop (Suc i) os) (acc @ [m]) = (ms, h', os')"
        using "1.prems" z0 unfolding step by simp
      from "1.IH"(1)[OF True ex_def z_def m_def h1_def h2_def z0 this]
      obtain new where "ms = (acc @ [m]) @ new"
        "\<forall>m \<in> set new. MatchPrice m = p \<and> BackLiability m = MatchSize m \<and>
                         LayLiability m = MatchSize m * (p - 1)"
        by (elim exE conjE) (rule that)
      with mf show ?thesis
        by (intro exI[of _ "m # new"]) simp
    next
      case nz: False
      have "matchOrders_loop e now inc p (Suc i)
               (h2(ex := (h2 ex)\<lparr>Status := OrderStatusPartially\<rparr>)) os (acc @ [m]) = (ms, h', os')"
        using "1.prems" nz unfolding step by simp
      from "1.IH"(2)[OF True ex_def z_def m_def h1_def h2_def nz this]
      obtain new where "ms = (acc @ [m]) @ new"
        "\<forall>m \<in> set new. MatchPrice m = p \<and> BackLiability m = MatchSize m \<and>
                         LayLiability m = MatchSize m * (p - 1)"
        by (elim exE conjE) (rule that)
      with mf show ?thesis
        by (intro exI[of _ "m # new"]) simp
    qed
  qed
qed

lemma matchOrders_fields:
  assumes "matchOrders e now h inc queue p = (ms, h', queue')"
  shows "\<forall>m \<in> set ms. MatchPrice m = p \<and> BackLiability m = MatchSize m \<and>
                       LayLiability m = MatchSize m * (p - 1)"
proof -
  obtain os' where "matchOrders_loop e now inc p 0 h (orders queue) [] = (ms, h', os')"
    using assms by (auto simp: matchOrders_def split: prod.splits)
  from matchOrders_loop_fields[OF this] show ?thesis by simp
qed

lemma placeBackOrder_walk_fields:
  "placeBackOrder_walk now order ps e h matches = Some (ms, e', h') \<Longrightarrow>
     \<exists>new. ms = matches @ new \<and>
       (\<forall>m \<in> set new. MatchPrice m \<in> set ps \<and> BackLiability m = MatchSize m \<and>
                        LayLiability m = MatchSize m * (MatchPrice m - 1))"
proof (induction ps arbitrary: e h matches)
  case Nil
  then show ?case by simp
next
  case (Cons lp rest)
  show ?case
  proof (cases "SizeRemaining (h order) = 0 \<or> Price (h order) < lp")
    case True
    with Cons.prems have "ms = matches" by (auto split: if_splits)
    then show ?thesis by simp
  next
    case False
    from Cons.prems False obtain queue where q: "layOrders e lp = Some queue"
      by (auto split: option.splits)
    obtain nm h1 q1 where m: "matchOrders e now h order queue lp = (nm, h1, q1)"
      by (cases "matchOrders e now h order queue lp")
    have "placeBackOrder_walk now order rest (e\<lparr>layOrders := (layOrders e)(lp \<mapsto> q1)\<rparr>) h1
            (matches @ nm) = Some (ms, e', h')"
      using Cons.prems False q m by simp
    from Cons.IH[OF this] obtain new where
      n: "ms = (matches @ nm) @ new"
         "\<forall>m \<in> set new. MatchPrice m \<in> set rest \<and> BackLiability m = MatchSize m \<and>
                          LayLiability m = MatchSize m * (MatchPrice m - 1)"
      by (elim exE conjE) (rule that)
    from matchOrders_fields[OF m] n show ?thesis
      by (intro exI[of _ "nm @ new"]) auto
  qed
qed

lemma placeLayOrder_walk_fields:
  "placeLayOrder_walk now order ps e h matches = Some (ms, e', h') \<Longrightarrow>
     \<exists>new. ms = matches @ new \<and>
       (\<forall>m \<in> set new. MatchPrice m \<in> set ps \<and> BackLiability m = MatchSize m \<and>
                        LayLiability m = MatchSize m * (MatchPrice m - 1))"
proof (induction ps arbitrary: e h matches)
  case Nil
  then show ?case by simp
next
  case (Cons bp rest)
  show ?case
  proof (cases "SizeRemaining (h order) = 0 \<or> Price (h order) > bp")
    case True
    with Cons.prems have "ms = matches" by (auto split: if_splits)
    then show ?thesis by simp
  next
    case False
    from Cons.prems False obtain queue where q: "backOrders e bp = Some queue"
      by (auto split: option.splits)
    obtain nm h1 q1 where m: "matchOrders e now h order queue bp = (nm, h1, q1)"
      by (cases "matchOrders e now h order queue bp")
    have "placeLayOrder_walk now order rest (e\<lparr>backOrders := (backOrders e)(bp \<mapsto> q1)\<rparr>) h1
            (matches @ nm) = Some (ms, e', h')"
      using Cons.prems False q m by simp
    from Cons.IH[OF this] obtain new where
      n: "ms = (matches @ nm) @ new"
         "\<forall>m \<in> set new. MatchPrice m \<in> set rest \<and> BackLiability m = MatchSize m \<and>
                          LayLiability m = MatchSize m * (MatchPrice m - 1)"
      by (elim exE conjE) (rule that)
    from matchOrders_fields[OF m] n show ?thesis
      by (intro exI[of _ "nm @ new"]) auto
  qed
qed

lemma Engine_PlaceOrder_fields:
  assumes "Engine_PlaceOrder now e h order = Some (ms, e', h')"
  shows "\<forall>m \<in> set ms.
           MatchPrice m \<in> set (if Side (h order) = OrderSideBack then layPrices e else backPrices e) \<and>
           BackLiability m = MatchSize m \<and> LayLiability m = MatchSize m * (MatchPrice m - 1)"
proof (cases "Side (h order) = OrderSideBack")
  case True
  with assms obtain e1 h1 where "placeBackOrder_walk now order (layPrices e) e h [] = Some (ms, e1, h1)"
    by (auto simp: Engine_PlaceOrder_def placeBackOrder_def split: option.splits prod.splits if_splits)
  from placeBackOrder_walk_fields[OF this] True show ?thesis by simp
next
  case False
  with assms obtain e1 h1 where "placeLayOrder_walk now order (backPrices e) e h [] = Some (ms, e1, h1)"
    by (auto simp: Engine_PlaceOrder_def placeLayOrder_def split: option.splits prod.splits if_splits)
  from placeLayOrder_walk_fields[OF this] False show ?thesis by simp
qed

text \<open>One level, walked in queue order: when the queue holds distinct orders and the
  incoming order is not one of them, the j-th match pairs the incoming order with the
  j-th order of the queue, for the lesser of what the incoming order has left after the
  earlier matches and what the resting order has left; the walk of the level stops early
  only when the incoming order is filled, and it touches no other order.\<close>

lemma matchOrders_loop_run:
  assumes "distinct os" "inc \<notin> set os"
    and "matchOrders_loop e now inc p 0 h os acc = (ms, h', os')"
  shows "\<exists>new. ms = acc @ new \<and> length new \<le> length os \<and>
           (\<forall>j < length new.
              new ! j = buildMatch e now (h inc) (h (os ! j)) p
                (min (SizeRemaining (h inc) - sum_list (map MatchSize (take j new)))
                     (SizeRemaining (h (os ! j))))) \<and>
           (length new < length os \<longrightarrow> SizeRemaining (h' inc) = 0) \<and>
           SizeRemaining (h' inc) = SizeRemaining (h inc) - sum_list (map MatchSize new) \<and>
           Side (h' inc) = Side (h inc) \<and> ID (h' inc) = ID (h inc) \<and>
           UserID (h' inc) = UserID (h inc) \<and> Price (h' inc) = Price (h inc) \<and>
           (\<forall>q. q \<noteq> inc \<and> q \<notin> set os \<longrightarrow> h' q = h q)"
  using assms
proof (induction os arbitrary: h acc)
  case Nil
  then show ?case by (simp add: matchOrders_loop_stop)
next
  case (Cons x xs)
  define R where "R = SizeRemaining (h inc)"
  show ?case
  proof (cases "R = 0")
    case True
    with Cons.prems show ?thesis by (simp add: matchOrders_loop_stop R_def)
  next
    case False
    define z where "z = min R (SizeRemaining (h x))"
    define m where "m = buildMatch e now (h inc) (h x) p z"
    define h2 where "h2 = addMatched (addMatched h inc z) x z"
    have xi: "x \<noteq> inc" using Cons.prems by auto
    have h2x: "SizeRemaining (h2 x) = SizeRemaining (h x) - z"
      and h2i: "SizeRemaining (h2 inc) = R - z"
      and h2inc: "Side (h2 inc) = Side (h inc)" "ID (h2 inc) = ID (h inc)"
        "UserID (h2 inc) = UserID (h inc)" "Price (h2 inc) = Price (h inc)"
      and h2o: "\<And>q. q \<noteq> x \<Longrightarrow> q \<noteq> inc \<Longrightarrow> h2 q = h q"
      using xi by (simp_all add: h2_def addMatched_def R_def)
    have step: "matchOrders_loop e now inc p 0 h (x # xs) acc =
       (if SizeRemaining (h2 x) = 0 then
           matchOrders_loop e now inc p 0
             (h2(x := (h2 x)\<lparr>MatchedAt := Some now, Status := OrderStatusMatched\<rparr>)) xs (acc @ [m])
         else
           matchOrders_loop e now inc p (Suc 0)
             (h2(x := (h2 x)\<lparr>Status := OrderStatusPartially\<rparr>)) (x # xs) (acc @ [m]))"
      using False
      by (subst matchOrders_loop_step) (simp_all add: Let_def R_def z_def m_def h2_def)
    have ms: "MatchSize m = z" by (simp add: m_def buildMatch_fields)
    show ?thesis
    proof (cases "SizeRemaining (h2 x) = 0")
      case z0: True
      define h3 where "h3 = h2(x := (h2 x)\<lparr>MatchedAt := Some now, Status := OrderStatusMatched\<rparr>)"
      have rec: "matchOrders_loop e now inc p 0 h3 xs (acc @ [m]) = (ms, h', os')"
        using Cons.prems(3) z0 unfolding step h3_def by simp
      have dx: "distinct xs" "inc \<notin> set xs" using Cons.prems by auto
      from Cons.IH[OF dx rec] obtain new where
        n: "ms = (acc @ [m]) @ new" "length new \<le> length xs"
          "\<forall>j < length new. new ! j = buildMatch e now (h3 inc) (h3 (xs ! j)) p
                (min (SizeRemaining (h3 inc) - sum_list (map MatchSize (take j new)))
                     (SizeRemaining (h3 (xs ! j))))"
          "length new < length xs \<longrightarrow> SizeRemaining (h' inc) = 0"
          "SizeRemaining (h' inc) = SizeRemaining (h3 inc) - sum_list (map MatchSize new)"
          "Side (h' inc) = Side (h3 inc)" "ID (h' inc) = ID (h3 inc)"
          "UserID (h' inc) = UserID (h3 inc)" "Price (h' inc) = Price (h3 inc)"
          "\<forall>q. q \<noteq> inc \<and> q \<notin> set xs \<longrightarrow> h' q = h3 q"
        by (elim exE conjE) (rule that)
      have h3i: "SizeRemaining (h3 inc) = R - z" "Side (h3 inc) = Side (h inc)"
        "ID (h3 inc) = ID (h inc)" "UserID (h3 inc) = UserID (h inc)"
        "Price (h3 inc) = Price (h inc)"
        using xi h2i h2inc by (simp_all add: h3_def)
      have h3o: "h3 (xs ! j) = h (xs ! j)" if "j < length xs" for j
      proof -
        have "xs ! j \<in> set xs" using that by simp
        then have "xs ! j \<noteq> x" "xs ! j \<noteq> inc" using Cons.prems by auto
        then show ?thesis using h2o by (simp add: h3_def)
      qed
      have frame: "\<forall>q. q \<noteq> inc \<and> q \<notin> set (x # xs) \<longrightarrow> h' q = h q"
        using n(10) h2o by (auto simp: h3_def)
      have pair: "\<forall>j < length (m # new).
              (m # new) ! j = buildMatch e now (h inc) (h ((x # xs) ! j)) p
                (min (SizeRemaining (h inc) - sum_list (map MatchSize (take j (m # new))))
                     (SizeRemaining (h ((x # xs) ! j))))"
      proof (intro allI impI)
        fix j assume j: "j < length (m # new)"
        show "(m # new) ! j = buildMatch e now (h inc) (h ((x # xs) ! j)) p
                (min (SizeRemaining (h inc) - sum_list (map MatchSize (take j (m # new))))
                     (SizeRemaining (h ((x # xs) ! j))))"
        proof (cases j)
          case 0
          then show ?thesis by (simp add: m_def z_def R_def)
        next
          case (Suc k)
          then have k: "k < length new" using j by simp
          then have kx: "k < length xs" using n(2) by simp
          have "new ! k = buildMatch e now (h3 inc) (h3 (xs ! k)) p
                (min (SizeRemaining (h3 inc) - sum_list (map MatchSize (take k new)))
                     (SizeRemaining (h3 (xs ! k))))"
            using n(3) k by blast
          also have "\<dots> = buildMatch e now (h inc) (h (xs ! k)) p
                (min (R - z - sum_list (map MatchSize (take k new)))
                     (SizeRemaining (h (xs ! k))))"
            using h3i h3o[OF kx] by (simp add: buildMatch_def)
          finally have nk: "new ! k = buildMatch e now (h inc) (h (xs ! k)) p
                (min (R - z - sum_list (map MatchSize (take k new)))
                     (SizeRemaining (h (xs ! k))))" .
          have "R - z - sum_list (map MatchSize (take k new)) =
                SizeRemaining (h inc) - sum_list (map MatchSize (take j (m # new)))"
            using Suc ms by (simp add: R_def)
          with nk Suc show ?thesis by simp
        qed
      qed
      have rest: "SizeRemaining (h' inc) = SizeRemaining (h inc) - sum_list (map MatchSize (m # new))"
        using n(5) h3i(1) ms by (simp add: R_def)
      show ?thesis
        apply (rule exI[of _ "m # new"])
        using n(1,2,4,6,7,8,9) h3i pair rest frame
        apply (intro conjI)
        apply simp_all
        done
    next
      case nz: False
      define h3 where "h3 = h2(x := (h2 x)\<lparr>Status := OrderStatusPartially\<rparr>)"
      have zR: "z = R" using nz h2x by (auto simp: z_def min_def split: if_splits)
      have h3i: "SizeRemaining (h3 inc) = 0" "Side (h3 inc) = Side (h inc)"
        "ID (h3 inc) = ID (h inc)" "UserID (h3 inc) = UserID (h inc)"
        "Price (h3 inc) = Price (h inc)"
        using xi h2i h2inc zR by (simp_all add: h3_def)
      have "matchOrders_loop e now inc p (Suc 0) h3 (x # xs) (acc @ [m]) = (ms, h', os')"
        using Cons.prems(3) nz unfolding step h3_def by simp
      then have r: "ms = acc @ [m]" "h' = h3"
        using h3i by (simp_all add: matchOrders_loop_stop)
      have frame: "\<forall>q. q \<noteq> inc \<and> q \<notin> set (x # xs) \<longrightarrow> h' q = h q"
        using r h2o by (auto simp: h3_def)
      show ?thesis
        apply (rule exI[of _ "[m]"])
        using r h3i frame ms zR
        apply (intro conjI)
        apply (simp_all add: m_def z_def R_def)
        done
    qed
  qed
qed


lemma placeBackOrder_walk_done:
  "SizeRemaining (h order) = 0 \<Longrightarrow> placeBackOrder_walk now order ps e h matches = Some (matches, e, h)"
  by (cases ps) simp_all

lemma placeLayOrder_walk_done:
  "SizeRemaining (h order) = 0 \<Longrightarrow> placeLayOrder_walk now order ps e h matches = Some (matches, e, h)"
  by (cases ps) simp_all

lemma buildMatch_same:
  assumes "marketID e1 = marketID e" "selectionID e1 = selectionID e"
    "Side a' = Side a" "ID a' = ID a" "UserID a' = UserID a"
  shows "buildMatch e1 now a' b p z = buildMatch e now a b p z"
  using assms by (simp add: buildMatch_def)

lemma levelOrders_Cons:
  "levelOrders m (p # ps) =
     (case m p of None \<Rightarrow> [] | Some q \<Rightarrow> map (Pair p) (orders q)) @ levelOrders m ps"
  by (simp add: levelOrders_def)

lemma levelOrders_upd:
  "lp \<notin> set ps \<Longrightarrow> levelOrders (m(lp \<mapsto> q)) ps = levelOrders m ps"
  by (induction ps) (auto simp: levelOrders_def)

text \<open>The walk over the levels: the matches pair the incoming order with the resting
  orders it can reach, in the order of \<open>levelOrders\<close>.\<close>

lemma placeBackOrder_walk_run:
  assumes "placeBackOrder_walk now order ps e h matches = Some (ms, e', h')"
    and "distinct ps"
    and "distinct (map snd (levelOrders (layOrders e) (takeWhile (\<lambda>lp. \<not> Price (h order) < lp) ps)))"
    and "order \<notin> snd ` set (levelOrders (layOrders e) (takeWhile (\<lambda>lp. \<not> Price (h order) < lp) ps))"
  shows "\<exists>new. ms = matches @ new \<and>
           length new \<le> length (levelOrders (layOrders e) (takeWhile (\<lambda>lp. \<not> Price (h order) < lp) ps)) \<and>
           (\<forall>j < length new.
              new ! j = buildMatch e now (h order)
                (h (snd (levelOrders (layOrders e) (takeWhile (\<lambda>lp. \<not> Price (h order) < lp) ps) ! j)))
                (fst (levelOrders (layOrders e) (takeWhile (\<lambda>lp. \<not> Price (h order) < lp) ps) ! j))
                (min (SizeRemaining (h order) - sum_list (map MatchSize (take j new)))
                     (SizeRemaining (h (snd (levelOrders (layOrders e)
                        (takeWhile (\<lambda>lp. \<not> Price (h order) < lp) ps) ! j))))))"
  using assms
proof (induction ps arbitrary: e h matches)
  case Nil
  then show ?case by simp
next
  case (Cons lp rest)
  show ?case
  proof (cases "SizeRemaining (h order) = 0 \<or> Price (h order) < lp")
    case True
    with Cons.prems(1) have "ms = matches" by (auto split: if_splits)
    then show ?thesis by simp
  next
    case False
    then have nz: "SizeRemaining (h order) \<noteq> 0" and el: "\<not> Price (h order) < lp" by auto
    from Cons.prems(1) False obtain queue where q: "layOrders e lp = Some queue"
      by (auto split: option.splits)
    define os where "os = orders queue"
    define R' where "R' = levelOrders (layOrders e) (takeWhile (\<lambda>lp. \<not> Price (h order) < lp) rest)"
    define R where "R = levelOrders (layOrders e) (takeWhile (\<lambda>lp. \<not> Price (h order) < lp) (lp # rest))"
    have R: "R = map (Pair lp) os @ R'"
      using el q by (simp add: R_def R'_def levelOrders_Cons os_def)
    have dR: "distinct (map snd R)" and oR: "order \<notin> snd ` set R"
      using Cons.prems(3,4) by (simp_all add: R_def)
    have sndR: "map snd R = os @ map snd R'"
      by (simp add: R comp_def)
    have dos: "distinct os" and dR': "distinct (map snd R')"
      and disj: "set os \<inter> snd ` set R' = {}"
      using dR unfolding sndR by auto
    have oos: "order \<notin> set os" and oR': "order \<notin> snd ` set R'"
      using oR unfolding R by (auto simp: image_Un image_image)
    obtain nm h1 q1 where m: "matchOrders e now h order queue lp = (nm, h1, q1)"
      by (cases "matchOrders e now h order queue lp")
    then obtain os1 where l: "matchOrders_loop e now order lp 0 h os [] = (nm, h1, os1)"
      by (auto simp: matchOrders_def os_def split: prod.splits)
    from matchOrders_loop_run[OF dos oos l] obtain new where
      nn: "nm = [] @ new" "length new \<le> length os"
        "\<forall>j < length new. new ! j = buildMatch e now (h order) (h (os ! j)) lp
            (min (SizeRemaining (h order) - sum_list (map MatchSize (take j new)))
                 (SizeRemaining (h (os ! j))))"
        "length new < length os \<longrightarrow> SizeRemaining (h1 order) = 0"
        "SizeRemaining (h1 order) = SizeRemaining (h order) - sum_list (map MatchSize new)"
        "Side (h1 order) = Side (h order)" "ID (h1 order) = ID (h order)"
        "UserID (h1 order) = UserID (h order)" "Price (h1 order) = Price (h order)"
        "\<forall>q. q \<noteq> order \<and> q \<notin> set os \<longrightarrow> h1 q = h q"
      by (elim exE conjE) (rule that)
    have nw: "new = nm" using nn(1) by simp
    note n = nn(2-)[unfolded nw]
    define e1 where "e1 = e\<lparr>layOrders := (layOrders e)(lp \<mapsto> q1)\<rparr>"
    have w1: "placeBackOrder_walk now order rest e1 h1 (matches @ nm) = Some (ms, e', h')"
      using Cons.prems(1) False q m by (simp add: e1_def)
    have first: "\<forall>j < length nm. nm ! j = buildMatch e now (h order) (h (snd (R ! j))) (fst (R ! j))
            (min (SizeRemaining (h order) - sum_list (map MatchSize (take j nm)))
                 (SizeRemaining (h (snd (R ! j)))))"
    proof (intro allI impI)
      fix j assume j: "j < length nm"
      then have "j < length os" using n(1) by simp
      then have "R ! j = (lp, os ! j)" by (simp add: R nth_append)
      with n(2) j show "nm ! j = buildMatch e now (h order) (h (snd (R ! j))) (fst (R ! j))
            (min (SizeRemaining (h order) - sum_list (map MatchSize (take j nm)))
                 (SizeRemaining (h (snd (R ! j)))))" by simp
    qed
    show ?thesis
    proof (cases "length nm < length os")
      case True
      with n(3) have "SizeRemaining (h1 order) = 0" by simp
      with placeBackOrder_walk_done[where h = h1 and order = order and now = now and ps = rest
          and e = e1 and matches = "matches @ nm"] w1
      have "ms = matches @ nm" by simp
      moreover have "length nm \<le> length R" using n(1) by (simp add: R)
      ultimately show ?thesis using first unfolding R_def[symmetric]
        by (intro exI[of _ nm]) simp
    next
      case False
      then have len: "length nm = length os" using n(1) by simp
      have lpr: "lp \<notin> set rest" using Cons.prems(2) by simp
      then have lpt: "lp \<notin> set (takeWhile (\<lambda>lp. \<not> Price (h order) < lp) rest)"
        using set_takeWhileD by fastforce
      have R1: "levelOrders (layOrders e1) (takeWhile (\<lambda>lp. \<not> Price (h1 order) < lp) rest) = R'"
        using levelOrders_upd[OF lpt] n(8) by (simp add: e1_def R'_def)
      have "distinct rest" using Cons.prems(2) by simp
      from Cons.IH[OF w1 this, unfolded R1, OF dR' oR'] obtain new' where
        n': "ms = (matches @ nm) @ new'" "length new' \<le> length R'"
          "\<forall>k < length new'. new' ! k = buildMatch e1 now (h1 order) (h1 (snd (R' ! k))) (fst (R' ! k))
             (min (SizeRemaining (h1 order) - sum_list (map MatchSize (take k new')))
                  (SizeRemaining (h1 (snd (R' ! k)))))"
        by (elim exE conjE) (rule that)
      have second: "new' ! k = buildMatch e now (h order) (h (snd (R' ! k))) (fst (R' ! k))
             (min (SizeRemaining (h order) - sum_list (map MatchSize nm)
                     - sum_list (map MatchSize (take k new')))
                  (SizeRemaining (h (snd (R' ! k)))))" if k: "k < length new'" for k
      proof -
        have "k < length R'" using k n'(2) by simp
        then have "snd (R' ! k) \<in> snd ` set R'" by (metis image_eqI nth_mem)
        then have "snd (R' ! k) \<noteq> order" "snd (R' ! k) \<notin> set os"
          using oR' disj by auto
        then have hk: "h1 (snd (R' ! k)) = h (snd (R' ! k))" using n(9) by simp
        have b: "buildMatch e1 now (h1 order) (h (snd (R' ! k))) (fst (R' ! k))
                   (min (SizeRemaining (h order) - sum_list (map MatchSize nm)
                           - sum_list (map MatchSize (take k new')))
                        (SizeRemaining (h (snd (R' ! k)))))
                 = buildMatch e now (h order) (h (snd (R' ! k))) (fst (R' ! k))
                   (min (SizeRemaining (h order) - sum_list (map MatchSize nm)
                           - sum_list (map MatchSize (take k new')))
                        (SizeRemaining (h (snd (R' ! k)))))"
          by (rule buildMatch_same) (simp_all add: e1_def n)
        from n'(3) k have "new' ! k = buildMatch e1 now (h1 order) (h1 (snd (R' ! k))) (fst (R' ! k))
             (min (SizeRemaining (h1 order) - sum_list (map MatchSize (take k new')))
                  (SizeRemaining (h1 (snd (R' ! k)))))" by blast
        with hk n(4) b show ?thesis by simp
      qed
      have all: "\<forall>j < length (nm @ new').
              (nm @ new') ! j = buildMatch e now (h order) (h (snd (R ! j))) (fst (R ! j))
                (min (SizeRemaining (h order) - sum_list (map MatchSize (take j (nm @ new'))))
                     (SizeRemaining (h (snd (R ! j)))))"
      proof (intro allI impI)
        fix j assume j: "j < length (nm @ new')"
        show "(nm @ new') ! j = buildMatch e now (h order) (h (snd (R ! j))) (fst (R ! j))
                (min (SizeRemaining (h order) - sum_list (map MatchSize (take j (nm @ new'))))
                     (SizeRemaining (h (snd (R ! j)))))"
        proof (cases "j < length nm")
          case True
          with first show ?thesis by (simp add: nth_append)
        next
          case False
          define k where "k = j - length nm"
          have k: "k < length new'" using j False by (simp add: k_def)
          have jk: "j = length nm + k" using False by (simp add: k_def)
          have rj: "R ! j = R' ! k" using False len by (simp add: R nth_append k_def)
          have tj: "take j (nm @ new') = nm @ take k new'" using jk by simp
          have "(nm @ new') ! j = new' ! k" using False by (simp add: nth_append k_def)
          with second[OF k] rj tj show ?thesis by (simp add: algebra_simps)
        qed
      qed
      have "length (nm @ new') \<le> length R" using n'(2) len by (simp add: R)
      with n'(1) all show ?thesis unfolding R_def[symmetric]
        by (intro exI[of _ "nm @ new'"]) simp
    qed
  qed
qed

lemma placeLayOrder_walk_run:
  assumes "placeLayOrder_walk now order ps e h matches = Some (ms, e', h')"
    and "distinct ps"
    and "distinct (map snd (levelOrders (backOrders e) (takeWhile (\<lambda>lp. \<not> Price (h order) > lp) ps)))"
    and "order \<notin> snd ` set (levelOrders (backOrders e) (takeWhile (\<lambda>lp. \<not> Price (h order) > lp) ps))"
  shows "\<exists>new. ms = matches @ new \<and>
           length new \<le> length (levelOrders (backOrders e) (takeWhile (\<lambda>lp. \<not> Price (h order) > lp) ps)) \<and>
           (\<forall>j < length new.
              new ! j = buildMatch e now (h order)
                (h (snd (levelOrders (backOrders e) (takeWhile (\<lambda>lp. \<not> Price (h order) > lp) ps) ! j)))
                (fst (levelOrders (backOrders e) (takeWhile (\<lambda>lp. \<not> Price (h order) > lp) ps) ! j))
                (min (SizeRemaining (h order) - sum_list (map MatchSize (take j new)))
                     (SizeRemaining (h (snd (levelOrders (backOrders e)
                        (takeWhile (\<lambda>lp. \<not> Price (h order) > lp) ps) ! j))))))"
  using assms
proof (induction ps arbitrary: e h matches)
  case Nil
  then show ?case by simp
next
  case (Cons lp rest)
  show ?case
  proof (cases "SizeRemaining (h order) = 0 \<or> Price (h order) > lp")
    case True
    with Cons.prems(1) have "ms = matches" by (auto split: if_splits)
    then show ?thesis by simp
  next
    case False
    then have nz: "SizeRemaining (h order) \<noteq> 0" and el: "\<not> Price (h order) > lp" by auto
    from Cons.prems(1) False obtain queue where q: "backOrders e lp = Some queue"
      by (auto split: option.splits)
    define os where "os = orders queue"
    define R' where "R' = levelOrders (backOrders e) (takeWhile (\<lambda>lp. \<not> Price (h order) > lp) rest)"
    define R where "R = levelOrders (backOrders e) (takeWhile (\<lambda>lp. \<not> Price (h order) > lp) (lp # rest))"
    have R: "R = map (Pair lp) os @ R'"
      using el q by (simp add: R_def R'_def levelOrders_Cons os_def)
    have dR: "distinct (map snd R)" and oR: "order \<notin> snd ` set R"
      using Cons.prems(3,4) by (simp_all add: R_def)
    have sndR: "map snd R = os @ map snd R'"
      by (simp add: R comp_def)
    have dos: "distinct os" and dR': "distinct (map snd R')"
      and disj: "set os \<inter> snd ` set R' = {}"
      using dR unfolding sndR by auto
    have oos: "order \<notin> set os" and oR': "order \<notin> snd ` set R'"
      using oR unfolding R by (auto simp: image_Un image_image)
    obtain nm h1 q1 where m: "matchOrders e now h order queue lp = (nm, h1, q1)"
      by (cases "matchOrders e now h order queue lp")
    then obtain os1 where l: "matchOrders_loop e now order lp 0 h os [] = (nm, h1, os1)"
      by (auto simp: matchOrders_def os_def split: prod.splits)
    from matchOrders_loop_run[OF dos oos l] obtain new where
      nn: "nm = [] @ new" "length new \<le> length os"
        "\<forall>j < length new. new ! j = buildMatch e now (h order) (h (os ! j)) lp
            (min (SizeRemaining (h order) - sum_list (map MatchSize (take j new)))
                 (SizeRemaining (h (os ! j))))"
        "length new < length os \<longrightarrow> SizeRemaining (h1 order) = 0"
        "SizeRemaining (h1 order) = SizeRemaining (h order) - sum_list (map MatchSize new)"
        "Side (h1 order) = Side (h order)" "ID (h1 order) = ID (h order)"
        "UserID (h1 order) = UserID (h order)" "Price (h1 order) = Price (h order)"
        "\<forall>q. q \<noteq> order \<and> q \<notin> set os \<longrightarrow> h1 q = h q"
      by (elim exE conjE) (rule that)
    have nw: "new = nm" using nn(1) by simp
    note n = nn(2-)[unfolded nw]
    define e1 where "e1 = e\<lparr>backOrders := (backOrders e)(lp \<mapsto> q1)\<rparr>"
    have w1: "placeLayOrder_walk now order rest e1 h1 (matches @ nm) = Some (ms, e', h')"
      using Cons.prems(1) False q m by (simp add: e1_def)
    have first: "\<forall>j < length nm. nm ! j = buildMatch e now (h order) (h (snd (R ! j))) (fst (R ! j))
            (min (SizeRemaining (h order) - sum_list (map MatchSize (take j nm)))
                 (SizeRemaining (h (snd (R ! j)))))"
    proof (intro allI impI)
      fix j assume j: "j < length nm"
      then have "j < length os" using n(1) by simp
      then have "R ! j = (lp, os ! j)" by (simp add: R nth_append)
      with n(2) j show "nm ! j = buildMatch e now (h order) (h (snd (R ! j))) (fst (R ! j))
            (min (SizeRemaining (h order) - sum_list (map MatchSize (take j nm)))
                 (SizeRemaining (h (snd (R ! j)))))" by simp
    qed
    show ?thesis
    proof (cases "length nm < length os")
      case True
      with n(3) have "SizeRemaining (h1 order) = 0" by simp
      with placeLayOrder_walk_done[where h = h1 and order = order and now = now and ps = rest
          and e = e1 and matches = "matches @ nm"] w1
      have "ms = matches @ nm" by simp
      moreover have "length nm \<le> length R" using n(1) by (simp add: R)
      ultimately show ?thesis using first unfolding R_def[symmetric]
        by (intro exI[of _ nm]) simp
    next
      case False
      then have len: "length nm = length os" using n(1) by simp
      have lpr: "lp \<notin> set rest" using Cons.prems(2) by simp
      then have lpt: "lp \<notin> set (takeWhile (\<lambda>lp. \<not> Price (h order) > lp) rest)"
        using set_takeWhileD by fastforce
      have R1: "levelOrders (backOrders e1) (takeWhile (\<lambda>lp. \<not> Price (h1 order) > lp) rest) = R'"
        using levelOrders_upd[OF lpt] n(8) by (simp add: e1_def R'_def)
      have "distinct rest" using Cons.prems(2) by simp
      from Cons.IH[OF w1 this, unfolded R1, OF dR' oR'] obtain new' where
        n': "ms = (matches @ nm) @ new'" "length new' \<le> length R'"
          "\<forall>k < length new'. new' ! k = buildMatch e1 now (h1 order) (h1 (snd (R' ! k))) (fst (R' ! k))
             (min (SizeRemaining (h1 order) - sum_list (map MatchSize (take k new')))
                  (SizeRemaining (h1 (snd (R' ! k)))))"
        by (elim exE conjE) (rule that)
      have second: "new' ! k = buildMatch e now (h order) (h (snd (R' ! k))) (fst (R' ! k))
             (min (SizeRemaining (h order) - sum_list (map MatchSize nm)
                     - sum_list (map MatchSize (take k new')))
                  (SizeRemaining (h (snd (R' ! k)))))" if k: "k < length new'" for k
      proof -
        have "k < length R'" using k n'(2) by simp
        then have "snd (R' ! k) \<in> snd ` set R'" by (metis image_eqI nth_mem)
        then have "snd (R' ! k) \<noteq> order" "snd (R' ! k) \<notin> set os"
          using oR' disj by auto
        then have hk: "h1 (snd (R' ! k)) = h (snd (R' ! k))" using n(9) by simp
        have b: "buildMatch e1 now (h1 order) (h (snd (R' ! k))) (fst (R' ! k))
                   (min (SizeRemaining (h order) - sum_list (map MatchSize nm)
                           - sum_list (map MatchSize (take k new')))
                        (SizeRemaining (h (snd (R' ! k)))))
                 = buildMatch e now (h order) (h (snd (R' ! k))) (fst (R' ! k))
                   (min (SizeRemaining (h order) - sum_list (map MatchSize nm)
                           - sum_list (map MatchSize (take k new')))
                        (SizeRemaining (h (snd (R' ! k)))))"
          by (rule buildMatch_same) (simp_all add: e1_def n)
        from n'(3) k have "new' ! k = buildMatch e1 now (h1 order) (h1 (snd (R' ! k))) (fst (R' ! k))
             (min (SizeRemaining (h1 order) - sum_list (map MatchSize (take k new')))
                  (SizeRemaining (h1 (snd (R' ! k)))))" by blast
        with hk n(4) b show ?thesis by simp
      qed
      have all: "\<forall>j < length (nm @ new').
              (nm @ new') ! j = buildMatch e now (h order) (h (snd (R ! j))) (fst (R ! j))
                (min (SizeRemaining (h order) - sum_list (map MatchSize (take j (nm @ new'))))
                     (SizeRemaining (h (snd (R ! j)))))"
      proof (intro allI impI)
        fix j assume j: "j < length (nm @ new')"
        show "(nm @ new') ! j = buildMatch e now (h order) (h (snd (R ! j))) (fst (R ! j))
                (min (SizeRemaining (h order) - sum_list (map MatchSize (take j (nm @ new'))))
                     (SizeRemaining (h (snd (R ! j)))))"
        proof (cases "j < length nm")
          case True
          with first show ?thesis by (simp add: nth_append)
        next
          case False
          define k where "k = j - length nm"
          have k: "k < length new'" using j False by (simp add: k_def)
          have jk: "j = length nm + k" using False by (simp add: k_def)
          have rj: "R ! j = R' ! k" using False len by (simp add: R nth_append k_def)
          have tj: "take j (nm @ new') = nm @ take k new'" using jk by simp
          have "(nm @ new') ! j = new' ! k" using False by (simp add: nth_append k_def)
          with second[OF k] rj tj show ?thesis by (simp add: algebra_simps)
        qed
      qed
      have "length (nm @ new') \<le> length R" using n'(2) len by (simp add: R)
      with n'(1) all show ?thesis unfolding R_def[symmetric]
        by (intro exI[of _ "nm @ new'"]) simp
    qed
  qed
qed

lemma Engine_PlaceOrder_run:
  assumes p: "Engine_PlaceOrder now e h order = Some (ms, e', h')"
    and d: "distinct (layPrices e)" "distinct (backPrices e)"
      "distinct (map snd (restingFor e h order))" "order \<notin> snd ` set (restingFor e h order)"
  shows "length ms \<le> length (restingFor e h order) \<and>
         (\<forall>j < length ms.
            ms ! j = buildMatch e now (h order) (h (snd (restingFor e h order ! j)))
              (fst (restingFor e h order ! j))
              (min (SizeRemaining (h order) - sum_list (map MatchSize (take j ms)))
                   (SizeRemaining (h (snd (restingFor e h order ! j))))))"
proof (cases "Side (h order) = OrderSideBack")
  case True
  with p obtain e1 h1 where
    w: "placeBackOrder_walk now order (layPrices e) e h [] = Some (ms, e1, h1)"
    by (auto simp: Engine_PlaceOrder_def placeBackOrder_def split: option.splits prod.splits if_splits)
  have r: "restingFor e h order =
      levelOrders (layOrders e) (takeWhile (\<lambda>lp. \<not> Price (h order) < lp) (layPrices e))"
    using True by (simp add: restingFor_def)
  from placeBackOrder_walk_run[OF w d(1) d(3)[unfolded r] d(4)[unfolded r]]
  show ?thesis unfolding r by simp
next
  case False
  with p obtain e1 h1 where
    w: "placeLayOrder_walk now order (backPrices e) e h [] = Some (ms, e1, h1)"
    by (auto simp: Engine_PlaceOrder_def placeLayOrder_def split: option.splits prod.splits if_splits)
  have r: "restingFor e h order =
      levelOrders (backOrders e) (takeWhile (\<lambda>lp. \<not> Price (h order) > lp) (backPrices e))"
    using False by (simp add: restingFor_def)
  from placeLayOrder_walk_run[OF w d(2) d(3)[unfolded r] d(4)[unfolded r]]
  show ?thesis unfolding r by simp
qed

text \<open>
  C4. Every match that \<open>Engine.PlaceOrder\<close> returns has a back liability equal to its
  size and a lay liability equal to its size times the price less one, in exact
  arithmetic, and is priced at a price level of the opposite side. In a book whose price
  sequences have no repeated price and whose reachable resting orders are distinct
  objects, none of them the incoming order, the matches follow the walk: the j-th match
  pairs the incoming order with the j-th reachable resting order (levels best price
  first, each level in queue order), its price is the price of that order's level, and its
  size is the lesser of what the incoming order has left after the earlier matches and
  what the resting order has left, which are the two remaining sizes when the pair is
  made.
\<close>

theorem match_fields:
  assumes "Engine_PlaceOrder now e h order = Some (ms, e', h')"
  shows "(\<forall>m \<in> set ms.
            MatchPrice m \<in> set (if Side (h order) = OrderSideBack then layPrices e else backPrices e) \<and>
            BackLiability m = MatchSize m \<and> LayLiability m = MatchSize m * (MatchPrice m - 1)) \<and>
         (distinct (layPrices e) \<and> distinct (backPrices e) \<and>
          distinct (map snd (restingFor e h order)) \<and> order \<notin> snd ` set (restingFor e h order) \<longrightarrow>
            length ms \<le> length (restingFor e h order) \<and>
            (\<forall>j < length ms.
               ms ! j = buildMatch e now (h order) (h (snd (restingFor e h order ! j)))
                 (fst (restingFor e h order ! j))
                 (min (SizeRemaining (h order) - sum_list (map MatchSize (take j ms)))
                      (SizeRemaining (h (snd (restingFor e h order ! j))))) \<and>
               MatchPrice (ms ! j) = fst (restingFor e h order ! j) \<and>
               MatchSize (ms ! j) =
                 min (SizeRemaining (h order) - sum_list (map MatchSize (take j ms)))
                     (SizeRemaining (h (snd (restingFor e h order ! j))))))"
proof (intro conjI impI)
  from Engine_PlaceOrder_fields[OF assms]
  show "\<forall>m \<in> set ms.
         MatchPrice m \<in> set (if Side (h order) = OrderSideBack then layPrices e else backPrices e) \<and>
         BackLiability m = MatchSize m \<and> LayLiability m = MatchSize m * (MatchPrice m - 1)" .
next
  assume a: "distinct (layPrices e) \<and> distinct (backPrices e) \<and>
          distinct (map snd (restingFor e h order)) \<and> order \<notin> snd ` set (restingFor e h order)"
  then have r: "length ms \<le> length (restingFor e h order) \<and>
         (\<forall>j < length ms.
            ms ! j = buildMatch e now (h order) (h (snd (restingFor e h order ! j)))
              (fst (restingFor e h order ! j))
              (min (SizeRemaining (h order) - sum_list (map MatchSize (take j ms)))
                   (SizeRemaining (h (snd (restingFor e h order ! j))))))"
    using Engine_PlaceOrder_run[OF assms] by blast
  from r show "length ms \<le> length (restingFor e h order)" by simp
  show "\<forall>j < length ms.
               ms ! j = buildMatch e now (h order) (h (snd (restingFor e h order ! j)))
                 (fst (restingFor e h order ! j))
                 (min (SizeRemaining (h order) - sum_list (map MatchSize (take j ms)))
                      (SizeRemaining (h (snd (restingFor e h order ! j))))) \<and>
               MatchPrice (ms ! j) = fst (restingFor e h order ! j) \<and>
               MatchSize (ms ! j) =
                 min (SizeRemaining (h order) - sum_list (map MatchSize (take j ms)))
                     (SizeRemaining (h (snd (restingFor e h order ! j))))"
  proof (intro allI impI)
    fix j assume "j < length ms"
    with r have "ms ! j = buildMatch e now (h order) (h (snd (restingFor e h order ! j)))
                 (fst (restingFor e h order ! j))
                 (min (SizeRemaining (h order) - sum_list (map MatchSize (take j ms)))
                      (SizeRemaining (h (snd (restingFor e h order ! j)))))"
      by blast
    then show "ms ! j = buildMatch e now (h order) (h (snd (restingFor e h order ! j)))
                 (fst (restingFor e h order ! j))
                 (min (SizeRemaining (h order) - sum_list (map MatchSize (take j ms)))
                      (SizeRemaining (h (snd (restingFor e h order ! j))))) \<and>
               MatchPrice (ms ! j) = fst (restingFor e h order ! j) \<and>
               MatchSize (ms ! j) =
                 min (SizeRemaining (h order) - sum_list (map MatchSize (take j ms)))
                     (SizeRemaining (h (snd (restingFor e h order ! j))))"
      using buildMatch_fields by metis
  qed
qed

lemma ex_resting: "restingFor exEngine1 exHeap 3 = [(2, 2)]"
  by (simp add: restingFor_def levelOrders_def ex_defs OrderSideBack_def)

theorem match_fields_witness:
  "restingFor exEngine1 exHeap 3 = [(2, 2)] \<and>
   map MatchPrice (fst (the (Engine_PlaceOrder 6 exEngine1 exHeap 3))) = [2] \<and>
   map MatchSize (fst (the (Engine_PlaceOrder 6 exEngine1 exHeap 3))) = [10] \<and>
   map BackLiability (fst (the (Engine_PlaceOrder 6 exEngine1 exHeap 3))) = [10] \<and>
   map LayLiability (fst (the (Engine_PlaceOrder 6 exEngine1 exHeap 3))) = [10] \<and>
   map LayOrderID (fst (the (Engine_PlaceOrder 6 exEngine1 exHeap 3))) = [2] \<and>
   map BackOrderID (fst (the (Engine_PlaceOrder 6 exEngine1 exHeap 3))) = [3]"
proof -
  obtain ms e' h' where r: "Engine_PlaceOrder 6 exEngine1 exHeap 3 = Some (ms, e', h')"
    using ex_cross by (cases "Engine_PlaceOrder 6 exEngine1 exHeap 3") auto
  from ex_cross r obtain m where ms: "ms = [m]"
    by (cases ms) auto
  have d: "distinct (layPrices exEngine1) \<and> distinct (backPrices exEngine1) \<and>
          distinct (map snd (restingFor exEngine1 exHeap 3)) \<and>
          3 \<notin> snd ` set (restingFor exEngine1 exHeap 3)"
    by (simp add: ex_resting) (simp add: exEngine1_def)
  from match_fields[OF r] d ms
  have "m = buildMatch exEngine1 6 (exHeap 3) (exHeap 2) 2
              (min (SizeRemaining (exHeap 3)) (SizeRemaining (exHeap 2)))"
    by (simp add: ex_resting)
  then have "m = buildMatch exEngine1 6 (exHeap 3) (exHeap 2) 2 10"
    by (simp add: ex_defs)
  with r ms show ?thesis
    by (simp add: ex_resting buildMatch_def) (simp add: ex_defs OrderSideBack_def)
qed

section \<open>Properties of the stores and of the order service\<close>

lemmas service_defs =
  PlaceOrder_def PlaceOrder_tx_def CancelOrder_def CancelOrder_tx_def SettleOrder_def
  SettleOrder_tx_def newOrder_def placedEvent_def cancelledEvent_def settledEvent_def
  validatePlaceOrderRequest_def validateCancelOrderRequest_def validateSettleOrderRequest_def
  Check_def StoreInTransaction_def OrderRepo_Create_def GetByIDForUpdate_def
  OrderRepo_Update_def OutboxRepo_Create_def commitTx_def rollbackTx_def logCall_def
  drawUUID_def Hour_def updateMetrics_def PlaceOrder_metrics_def CancelOrder_metrics_def
  SettleOrder_metrics_def WithLabelValues_def Counter_Add_def

subsection \<open>The idempotency check\<close>

lemma Check_no_live_record:
  assumes "fails env (IdempotencyCheck key) = None" "liveRecord now t key = None"
  shows "Check env now t key requestHash = (None, False, None)"
  using assms by (auto simp: Check_def liveRecord_def split: option.splits if_splits)

text \<open>
  C8. \<open>Check(key, request_hash)\<close> has three outcomes, decided by the live record of the
  key (a record that has expired counts as absent): no live record gives
  \<open>(nil, false, nil)\<close>; a live record with the same hash gives the cached response with
  \<open>(true, nil)\<close>; a live record with another hash gives
  \<open>(nil, true, ErrIdempotencyMismatch)\<close>. This is the function on every state of the
  table, when the query itself is answered by the database.
\<close>

theorem Check_outcomes:
  assumes "fails env (IdempotencyCheck key) = None"
  shows "Check env now t key requestHash =
           (case liveRecord now t key of
              None \<Rightarrow> (None, False, None)
            | Some row \<Rightarrow>
                if request_hash row = requestHash then (Some (response_data row), True, None)
                else (None, True, Some ErrIdempotencyMismatch))"
  using assms by (auto simp: Check_def liveRecord_def split: option.splits if_splits)

theorem Check_outcomes_witness:
  "Check exEnv 5 exTables ''k9'' ''h1'' = (None, False, None) \<and>
   Check exEnv 20 exTables ''k1'' ''h1'' = (None, False, None) \<and>
   Check exEnv 5 exTables ''k1'' ''h1'' = (Some JNull, True, None) \<and>
   Check exEnv 5 exTables ''k1'' ''h2'' = (None, True, Some ErrIdempotencyMismatch)"
  using Check_outcomes[of exEnv "''k9''" 5 exTables "''h1''"]
    Check_outcomes[of exEnv "''k1''" 20 exTables "''h1''"]
    Check_outcomes[of exEnv "''k1''" 5 exTables "''h1''"]
    Check_outcomes[of exEnv "''k1''" 5 exTables "''h2''"]
  by (simp add: liveRecord_def exTables_def exEnv_def)

subsection \<open>Reading active orders\<close>

text \<open>
  C10. For every limit and offset, and whatever the store holds, \<open>GetActiveOrders\<close>
  returns the empty list and no error, and the world after the call is the world before
  it: no call is made to a repository.
\<close>

theorem GetActiveOrders_empty:
  "GetActiveOrders w limit offset = (Inr [], w)"
  by (simp add: GetActiveOrders_def)

subsection \<open>Settling\<close>

lemma find_map_preserve:
  assumes "\<And>x. P (f x) = P x"
  shows "find P (map f xs) = map_option f (find P xs)"
  using assms by (induction xs) auto

lemma find_Some_filter:
  "find P xs = Some x \<Longrightarrow> Q x \<Longrightarrow> filter (\<lambda>y. P y \<and> Q y) xs \<noteq> []"
  by (induction xs) (auto split: if_splits)

text \<open>A settlement that passes validation and the idempotency check, with the database
  answering every call and the metrics accepting the result and the payout, writes the
  new status to the order it finds, whatever the status of that order was.\<close>

lemma SettleOrder_applies:
  assumes valid: "validateSettleOrderRequest env req"
    and hash: "hashSettle env req = Some hsh"
    and nofault: "\<And>c. fails env c = None"
    and fresh: "liveRecord now (committed w) (settle_IdempotencyKey req) = None"
    and mar: "marshal env None = Some j"
    and found: "find (\<lambda>row. ID row = settle_OrderID req) (orders_tbl (committed w)) = Some order"
    and label: "utf8_ValidString env (settle_Result req)"
    and payout: "settle_Result req = ''win'' \<Longrightarrow> 0 \<le> settle_ActualPayout req"
  shows "fst (SettleOrder env now w req) = Inr () \<and>
         find (\<lambda>row. ID row = settle_OrderID req)
              (orders_tbl (committed (snd (SettleOrder env now w req))))
           = Some (order\<lparr>Status := ''settled_'' @ settle_Result req,
                         Version := Version order + 1\<rparr>)"
proof -
  have chk: "Check env now (committed w) (settle_IdempotencyKey req) hsh = (None, False, None)"
    using Check_no_live_record nofault fresh by simp
  have idr: "ID order = settle_OrderID req"
    using found by (auto simp: find_Some_iff)
  have nonempty:
    "filter (\<lambda>row. ID row = settle_OrderID req \<and> Version row = Version order)
       (orders_tbl (committed w)) \<noteq> []"
    using find_Some_filter[OF found, of "\<lambda>row. Version row = Version order"] by simp
  have res: "(if settle_Result req = ''win'' then ''settled_win'' else ''settled_loss'')
             = ''settled_'' @ settle_Result req"
    using valid by (auto simp: validateSettleOrderRequest_def)
  have metrics: "SettleOrder_metrics env req = None"
    using label payout
    by (cases "settle_Result req = ''win''")
       (simp_all add: SettleOrder_metrics_def WithLabelValues_def Counter_Add_def)
  show ?thesis
    using valid hash nofault mar found chk idr nonempty
    unfolding res[symmetric]
    by (simp add: SettleOrder_def SettleOrder_tx_def GetByIDForUpdate_def OrderRepo_Update_def
        OutboxRepo_Create_def StoreInTransaction_def commitTx_def rollbackTx_def logCall_def
        drawUUID_def Let_def find_map_preserve updateMetrics_def metrics split: if_splits)
qed

text \<open>
  C5, as the code has it. \<open>SettleOrder\<close> accepts the two results win and loss (the
  validator's \<open>oneof=win loss\<close>): a request with any other result, push among them, fails
  validation and leaves the world as it was. A valid request with result win or loss on
  an order in status MATCHED succeeds, when no live idempotency record exists for its key,
  the database answers every call, and the payout of a win is not negative (the result
  being valid UTF-8, as the two words are), and the order's status becomes
  \<open>settled_win\<close> or \<open>settled_loss\<close>. The validator does not look at the sign of the
  payout: a win with a negative payout is committed and then panics in the payout
  counter.
\<close>

theorem SettleOrder_results:
  "(settle_Result req \<noteq> ''win'' \<and> settle_Result req \<noteq> ''loss'' \<longrightarrow>
      SettleOrder env now w req = (Inl (Wrap ''validation failed'' ErrValidation), w)) \<and>
   (validateSettleOrderRequest env req \<and> hashSettle env req = Some hsh \<and>
    (\<forall>c. fails env c = None) \<and>
    liveRecord now (committed w) (settle_IdempotencyKey req) = None \<and>
    marshal env None = Some j \<and>
    find (\<lambda>row. ID row = settle_OrderID req) (orders_tbl (committed w)) = Some order \<and>
    Status order = OrderStatusMatched \<and> utf8_ValidString env (settle_Result req) \<and>
    (settle_Result req = ''win'' \<longrightarrow> 0 \<le> settle_ActualPayout req) \<longrightarrow>
      fst (SettleOrder env now w req) = Inr () \<and>
      find (\<lambda>row. ID row = settle_OrderID req)
           (orders_tbl (committed (snd (SettleOrder env now w req))))
        = Some (order\<lparr>Status := ''settled_'' @ settle_Result req,
                      Version := Version order + 1\<rparr>))"
proof (intro conjI impI)
  assume "settle_Result req \<noteq> ''win'' \<and> settle_Result req \<noteq> ''loss''"
  then show "SettleOrder env now w req = (Inl (Wrap ''validation failed'' ErrValidation), w)"
    by (simp add: SettleOrder_def validateSettleOrderRequest_def)
next
  assume a: "validateSettleOrderRequest env req \<and> hashSettle env req = Some hsh \<and>
    (\<forall>c. fails env c = None) \<and>
    liveRecord now (committed w) (settle_IdempotencyKey req) = None \<and>
    marshal env None = Some j \<and>
    find (\<lambda>row. ID row = settle_OrderID req) (orders_tbl (committed w)) = Some order \<and>
    Status order = OrderStatusMatched \<and> utf8_ValidString env (settle_Result req) \<and>
    (settle_Result req = ''win'' \<longrightarrow> 0 \<le> settle_ActualPayout req)"
  then have s: "fst (SettleOrder env now w req) = Inr () \<and>
      find (\<lambda>row. ID row = settle_OrderID req)
           (orders_tbl (committed (snd (SettleOrder env now w req))))
        = Some (order\<lparr>Status := ''settled_'' @ settle_Result req,
                      Version := Version order + 1\<rparr>)"
    using SettleOrder_applies[of env req hsh now w j order] by blast
  from s show "fst (SettleOrder env now w req) = Inr ()" by simp
  from s show "find (\<lambda>row. ID row = settle_OrderID req)
           (orders_tbl (committed (snd (SettleOrder env now w req))))
        = Some (order\<lparr>Status := ''settled_'' @ settle_Result req,
                      Version := Version order + 1\<rparr>)" by simp
qed

theorem SettleOrder_results_witness:
  "SettleOrder exEnv 5 (exWorld [exRow OrderStatusMatched]) (exSettle 2 ''push'')
     = (Inl (Wrap ''validation failed'' ErrValidation), exWorld [exRow OrderStatusMatched]) \<and>
   fst (SettleOrder exEnv 5 (exWorld [exRow OrderStatusMatched]) (exSettle 2 ''win'')) = Inr () \<and>
   map_option Status
     (find (\<lambda>row. ID row = 2)
        (orders_tbl (committed (snd (SettleOrder exEnv 5 (exWorld [exRow OrderStatusMatched])
           (exSettle 2 ''win''))))))
     = Some ''settled_win''"
  using SettleOrder_results[of "exSettle 2 ''push''" exEnv 5 "exWorld [exRow OrderStatusMatched]"]
    SettleOrder_results[of "exSettle 2 ''win''" exEnv 5 "exWorld [exRow OrderStatusMatched]"
      "''settle:win''" JNull "exRow OrderStatusMatched"]
  by (simp add: exSettle_def exEnv_def exWorld_def exRow_def exOrder_def liveRecord_def
      validateSettleOrderRequest_def)

text \<open>The claim as the specification words it fails: a push on a MATCHED order is
  refused at validation and the order stays MATCHED.\<close>

theorem SettleOrder_push_refused:
  "SettleOrder exEnv 5 (exWorld [exRow OrderStatusMatched]) (exSettle 2 ''push'')
     = (Inl (Wrap ''validation failed'' ErrValidation), exWorld [exRow OrderStatusMatched]) \<and>
   map Status (orders_tbl (committed (exWorld [exRow OrderStatusMatched]))) = [''MATCHED'']"
  by (simp add: SettleOrder_def validateSettleOrderRequest_def exSettle_def exWorld_def
      exRow_def exOrder_def status_defs)

text \<open>The sign of the payout matters for a win only. A win with payout -20 on a MATCHED
  order passes validation, commits the new status and then panics in
  \<open>OrderPayoutTotal.Add\<close>; a loss with the same payout succeeds.\<close>

lemma SettleOrder_negative_payout:
  "fst (SettleOrder exEnv 5 (exWorld [exRow OrderStatusMatched])
          ((exSettle 2 ''win'')\<lparr>settle_ActualPayout := - 20\<rparr>))
     = Inl (Panic ''counter cannot decrease in value'') \<and>
   map Status (orders_tbl (committed (snd (SettleOrder exEnv 5 (exWorld [exRow OrderStatusMatched])
      ((exSettle 2 ''win'')\<lparr>settle_ActualPayout := - 20\<rparr>))))) = [''settled_win''] \<and>
   fst (SettleOrder exEnv 5 (exWorld [exRow OrderStatusMatched])
          ((exSettle 2 ''loss'')\<lparr>settle_ActualPayout := - 20\<rparr>))
     = Inr ()"
  by (simp add: service_defs ex_defs status_defs Let_def)

text \<open>
  C6. Settling an order that is not MATCHED should fail and leave its status alone. The
  service never looks at the status: it writes the new status through the generic
  \<open>Update\<close>, not through the repository's \<open>Settle\<close>, whose UPDATE is guarded by
  \<open>status = MATCHED\<close>. A win on a PENDING order succeeds and the order becomes
  \<open>settled_win\<close>, where \<open>Settle\<close> on the same table answers \<open>ErrInvalidOrderStatus\<close>.
\<close>

theorem SettleOrder_settles_pending_order:
  "fst (SettleOrder exEnv 5 (exWorld [exRow OrderStatusPending]) (exSettle 2 ''win'')) = Inr () \<and>
   map Status (orders_tbl (committed (exWorld [exRow OrderStatusPending]))) = [''PENDING''] \<and>
   map Status (orders_tbl (committed (snd (SettleOrder exEnv 5 (exWorld [exRow OrderStatusPending])
      (exSettle 2 ''win''))))) = [''settled_win''] \<and>
   OrderRepo_Settle exEnv (committed (exWorld [exRow OrderStatusPending])) 2 ''win'' 20
     = Inl ErrInvalidOrderStatus"
  by (simp add: service_defs OrderRepo_Settle_def ex_defs status_defs Let_def)

subsection \<open>Cancelling\<close>

text \<open>
  C7, as the code has it. A cancel request that passes validation and the idempotency
  check, for an existing order whose status is neither PENDING nor PARTIALLY, fails with
  the error \<open>order cannot be cancelled: status=...\<close> built by \<open>fmt.Errorf\<close> (it is not
  \<open>ErrInvalidOrderStatus\<close> and does not wrap it). The transaction is rolled back after
  the read: the committed tables are unchanged, so no order is mutated and no outbox or
  idempotency record is created.
\<close>

theorem CancelOrder_rejects:
  assumes valid: "validateCancelOrderRequest env req"
    and hash: "hashCancel env req = Some hsh"
    and chk: "Check env now (committed w) (cancel_IdempotencyKey req) hsh = (None, False, None)"
    and beg: "fails env DbBegin = None"
    and found: "GetByIDForUpdate env (committed w) (cancel_OrderID req) = Inr order"
    and st: "Status order \<noteq> OrderStatusPending" "Status order \<noteq> OrderStatusPartially"
  shows "CancelOrder env now w req =
           (Inl (Errorf (''order cannot be cancelled: status='' @ Status order)),
            w\<lparr>calls := calls w @ [IdempotencyCheck (cancel_IdempotencyKey req), DbBegin,
                                  OrderGetByIDForUpdate (cancel_OrderID req), TxRollback]\<rparr>)"
  using assms
  by (simp add: CancelOrder_def CancelOrder_tx_def rollbackTx_def logCall_def Let_def)

theorem CancelOrder_rejects_witness:
  "CancelOrder exEnv 5 (exWorld [exRow OrderStatusMatched]) (exCancel 2) =
     (Inl (Errorf ''order cannot be cancelled: status=MATCHED''),
      (exWorld [exRow OrderStatusMatched])
        \<lparr>calls := [IdempotencyCheck ''k2'', DbBegin, OrderGetByIDForUpdate 2, TxRollback]\<rparr>)"
  using CancelOrder_rejects[of exEnv "exCancel 2" "''cancel''" 5 "exWorld [exRow OrderStatusMatched]"
      "exRow OrderStatusMatched"]
  by (simp add: exCancel_def exEnv_def exWorld_def exRow_def exOrder_def status_defs
      validateCancelOrderRequest_def Check_def GetByIDForUpdate_def)

text \<open>The claim as the specification words it fails on the error: cancelling a MATCHED
  order returns the formatted error, which is not \<open>ErrInvalidOrderStatus\<close>.\<close>

theorem CancelOrder_error_is_not_sentinel:
  "fst (CancelOrder exEnv 5 (exWorld [exRow OrderStatusMatched]) (exCancel 2))
     = Inl (Errorf ''order cannot be cancelled: status=MATCHED'') \<and>
   fst (CancelOrder exEnv 5 (exWorld [exRow OrderStatusMatched]) (exCancel 2))
     \<noteq> Inl ErrInvalidOrderStatus \<and>
   fst (CancelOrder exEnv 5 (exWorld [exRow OrderStatusMatched]) (exCancel 2))
     \<noteq> Inl (Wrap ''order cannot be cancelled'' ErrInvalidOrderStatus)"
  by (simp add: service_defs ex_defs status_defs Let_def)

subsection \<open>Placing\<close>






text \<open>The sign of the amount matters: a request for -100 passes validation, its order row
  is committed, and the call then panics in \<open>OrderAmountTotal.Add\<close>.\<close>

lemma PlaceOrder_negative_amount:
  "fst (PlaceOrder exEnv 5 (exWorld []) (exPlace\<lparr>req_Amount := - 100\<rparr>))
     = Inl (Panic ''counter cannot decrease in value'') \<and>
   map Size (orders_tbl (committed (snd (PlaceOrder exEnv 5 (exWorld [])
      (exPlace\<lparr>req_Amount := - 100\<rparr>))))) = [- 100]"
  by (simp add: service_defs ex_defs status_defs Let_def)

subsection \<open>Idempotency of placing\<close>






end
